theory Spec2Isabelle
  imports Main "HOL-Library.DAList" "HOL-Library.Char_ord" "HOL-Library.List_Lexorder"
begin

section \<open>Resource discovery, indexing and filtering (package resource)\<close>

text \<open>
  A shallow embedding of the Go package \<^verbatim>\<open>pkg/framework/resource\<close>: the parser that
  indexes the announcements of an API server (\<^verbatim>\<open>parse.go\<close>), the catalog type with its
  sorted key listing and its filtering (\<^verbatim>\<open>resources.go\<close>), and the filters
  (\<^verbatim>\<open>filter.go\<close>).

  Go pointers are addresses into an explicit store. Strings are byte strings.
\<close>

subsection \<open>Library functions of Go used by the package\<close>

text \<open>
  \<^verbatim>\<open>strings.Split(s, sep)\<close> for the one-byte separator the package uses: the substrings
  between the separators, so a string without separator (the empty string too) gives a
  one-element result.
\<close>

fun strings_Split :: "string \<Rightarrow> char \<Rightarrow> string list" where
  "strings_Split [] sep = [[]]"
| "strings_Split (c # cs) sep =
     (if c = sep then [] # strings_Split cs sep
      else (case strings_Split cs sep of
              [] \<Rightarrow> [[c]]
            | p # ps \<Rightarrow> (c # p) # ps))"

text \<open>\<^verbatim>\<open>strings.HasSuffix(s, suffix)\<close>.\<close>

definition strings_HasSuffix :: "string \<Rightarrow> string \<Rightarrow> bool" where
  "strings_HasSuffix s suffix =
     (length suffix \<le> length s \<and> drop (length s - length suffix) s = suffix)"

subsection \<open>Data model\<close>

text \<open>
  \<^verbatim>\<open>v1.APIResource\<close>, the resource descriptor of an announcement, and
  \<^verbatim>\<open>v1.APIResourceList\<close>, the announcement of one group-version.
\<close>

record APIResource =
  Name :: string
  Namespaced :: bool
  Group :: string
  Version :: string
  Kind :: string
  Verbs :: "string list"
  ShortNames :: "string list"
  Categories :: "string list"

record APIResourceList =
  GroupVersion :: string
  APIResources :: "APIResource list"

text \<open>\<^verbatim>\<open>schema.GroupVersion\<close> and \<^verbatim>\<open>schema.GroupVersionResource\<close>, compared field by field.\<close>

type_synonym GroupVersion = "string \<times> string"
type_synonym GroupVersionResource = "string \<times> string \<times> string"

text \<open>
  An address of the store. A slice header of type \<^verbatim>\<open>[]*SubResource\<close>: the address of its
  backing array (none for the nil slice), its length and its capacity.
\<close>

type_synonym addr = nat

record slice =
  s_ptr :: "addr option"
  s_len :: nat
  s_cap :: nat

definition nil_slice :: slice where
  "nil_slice = \<lparr>s_ptr = None, s_len = 0, s_cap = 0\<rparr>"

text \<open>
  \<^verbatim>\<open>Resource\<close> and \<^verbatim>\<open>SubResource\<close> of \<^verbatim>\<open>resource.go\<close>. The schema type
  \<^verbatim>\<open>proto.Schema\<close> belongs to another package and stays a type parameter.
\<close>

record 'sch SubResource =
  srResource :: APIResource
  srParent :: addr
  srApiGroupVersion :: GroupVersion
  srSchema :: 'sch

record 'sch Resource =
  rResource :: APIResource
  rApiGroupVersion :: GroupVersion
  rSchema :: 'sch
  rSubResources :: slice

subsection \<open>The parser: group and version of an announcement\<close>

text \<open>
  The parser holds the schema lookup (\<^verbatim>\<open>openapi.Resources.LookupResource\<close>, nil when
  there is no schema), what the discovery client's \<^verbatim>\<open>ServerResources()\<close> returns (the
  announcements and the error, nil when it succeeds), and the configured group and
  version. The announcements are the values the client's pointers point to.
\<close>

record ('sch, 'err) Parser =
  resources :: "string \<times> string \<times> string \<Rightarrow> 'sch option"
  discovery :: "APIResourceList list \<times> 'err option"
  apiGroup :: string
  apiVersion :: string

text \<open>
  \<^verbatim>\<open>strings.Split\<close> returns at least one part, so \<^verbatim>\<open>parts[0]\<close> is always there; the
  case of no part is written out to keep the functions total.
\<close>

definition subResource :: "APIResource \<Rightarrow> string \<times> string \<times> bool" where
  "subResource r =
     (case strings_Split (Name r) (CHR ''/'') of
        p0 # p1 # _ \<Rightarrow> (p0, p1, True)
      | [p0] \<Rightarrow> (p0, [], False)
      | [] \<Rightarrow> ([], [], False))"

definition resource :: "APIResource \<Rightarrow> string \<times> bool" where
  "resource r = (case subResource r of (n, _, b) \<Rightarrow> (n, \<not> b))"

definition copyGroupVersion :: "APIResource \<Rightarrow> APIResource \<Rightarrow> APIResource" where
  "copyGroupVersion src dest =
     (let dest = (if length (Group dest) = 0 then dest\<lparr>Group := Group src\<rparr> else dest);
          dest = (if length (Group dest) = 0 then dest\<lparr>Group := ''core''\<rparr> else dest);
          dest = (if length (Version dest) = 0 then dest\<lparr>Version := Version src\<rparr> else dest)
      in dest)"

definition splitGroupVersion :: "string \<Rightarrow> string \<times> string" where
  "splitGroupVersion groupVersion =
     (let parts = strings_Split groupVersion (CHR ''/'');
          grp = (if length parts > 1 then parts ! 0 else []);
          version = (if length parts > 1 then parts ! 1
                     else if length parts > 0 then parts ! 0
                     else ''v1'')
      in (grp, version))"

definition defaultGroupVersion :: "APIResource \<Rightarrow> string \<Rightarrow> string \<Rightarrow> APIResource" where
  "defaultGroupVersion r grp version =
     (let r = (if length (Group r) = 0 then r\<lparr>Group := grp\<rparr> else r);
          r = (if length (Version r) = 0 then r\<lparr>Group := version\<rparr> else r)
      in r)"

definition isGroupVersionMatch :: "('sch, 'err) Parser \<Rightarrow> string \<Rightarrow> string \<Rightarrow> bool" where
  "isGroupVersionMatch p grp version =
     (if length (apiGroup p) > 0 \<and> apiGroup p \<noteq> grp then False
      else if length (apiVersion p) > 0 \<and> apiVersion p \<noteq> version then False
      else True)"

definition getOpenAPI :: "('sch, 'err) Parser \<Rightarrow> string \<Rightarrow> string \<Rightarrow> string \<Rightarrow> 'sch option" where
  "getOpenAPI p grp version kind = resources p (grp, version, kind)"

subsection \<open>The store\<close>

text \<open>
  The objects the package allocates: the \<^verbatim>\<open>Resource\<close> and \<^verbatim>\<open>SubResource\<close> structs
  behind the pointers, and the backing arrays of the \<^verbatim>\<open>[]*SubResource\<close> slices. An
  address is an index into its heap; an object is allocated at the end of its heap.
  Reading through an address that holds no object (the nil pointer of Go) is a panic,
  the result \<open>None\<close>.
\<close>

record 'sch store =
  resHeap :: "'sch Resource list"
  subHeap :: "'sch SubResource list"
  arrHeap :: "addr list list"

definition get_res :: "'sch store \<Rightarrow> addr \<Rightarrow> 'sch Resource option" where
  "get_res st a = (if a < length (resHeap st) then Some (resHeap st ! a) else None)"

definition new_res :: "'sch store \<Rightarrow> 'sch Resource \<Rightarrow> 'sch store \<times> addr" where
  "new_res st R = (st\<lparr>resHeap := resHeap st @ [R]\<rparr>, length (resHeap st))"

definition set_res :: "'sch store \<Rightarrow> addr \<Rightarrow> 'sch Resource \<Rightarrow> 'sch store" where
  "set_res st a R = st\<lparr>resHeap := (resHeap st)[a := R]\<rparr>"

definition get_sub :: "'sch store \<Rightarrow> addr \<Rightarrow> 'sch SubResource option" where
  "get_sub st a = (if a < length (subHeap st) then Some (subHeap st ! a) else None)"

definition new_sub :: "'sch store \<Rightarrow> 'sch SubResource \<Rightarrow> 'sch store \<times> addr" where
  "new_sub st S = (st\<lparr>subHeap := subHeap st @ [S]\<rparr>, length (subHeap st))"

text \<open>
  The elements \<open>s[0] .. s[len - 1]\<close> of a slice, and one element \<open>s[i]\<close>. A header that
  does not fit its array cannot arise in Go and reads as a panic.
\<close>

definition slice_elems :: "'sch store \<Rightarrow> slice \<Rightarrow> addr list option" where
  "slice_elems st s =
     (case s_ptr s of
        None \<Rightarrow> (if s_len s = 0 then Some [] else None)
      | Some p \<Rightarrow>
          (if p < length (arrHeap st) \<and> s_len s \<le> length (arrHeap st ! p)
           then Some (take (s_len s) (arrHeap st ! p)) else None))"

definition slice_index :: "'sch store \<Rightarrow> slice \<Rightarrow> nat \<Rightarrow> addr option" where
  "slice_index st s i =
     (case slice_elems st s of
        None \<Rightarrow> None
      | Some es \<Rightarrow> (if i < length es then Some (es ! i) else None))"

text \<open>
  The slice literal \<^verbatim>\<open>[]*SubResource{}\<close>: not nil, of length and capacity 0.
\<close>

definition empty_slice :: "'sch store \<Rightarrow> 'sch store \<times> slice" where
  "empty_slice st =
     (st\<lparr>arrHeap := arrHeap st @ [[]]\<rparr>,
      \<lparr>s_ptr = Some (length (arrHeap st)), s_len = 0, s_cap = 0\<rparr>)"

text \<open>
  \<^verbatim>\<open>append(s, x)\<close>: where the capacity allows, \<open>x\<close> is written into the backing array of
  \<open>s\<close>, in place; otherwise the elements move to a new, larger array. The new capacity
  is the runtime's choice; it is modelled as doubling. The slots of a new array beyond
  the length are not read by this package and hold 0.
\<close>

definition growcap :: "nat \<Rightarrow> nat" where
  "growcap c = (if c = 0 then 1 else 2 * c)"

definition append_slice :: "'sch store \<Rightarrow> slice \<Rightarrow> addr \<Rightarrow> ('sch store \<times> slice) option" where
  "append_slice st s x =
     (if s_len s < s_cap s then
        (case s_ptr s of
           None \<Rightarrow> None
         | Some p \<Rightarrow>
             (if p < length (arrHeap st) \<and> s_len s < length (arrHeap st ! p)
              then Some (st\<lparr>arrHeap := (arrHeap st)[p := (arrHeap st ! p)[s_len s := x]]\<rparr>,
                         s\<lparr>s_len := s_len s + 1\<rparr>)
              else None))
      else
        (case slice_elems st s of
           None \<Rightarrow> None
         | Some es \<Rightarrow>
             (let newcap = growcap (s_cap s)
              in Some (st\<lparr>arrHeap := arrHeap st @ [es @ [x] @ replicate (newcap - s_len s - 1) 0]\<rparr>,
                       \<lparr>s_ptr = Some (length (arrHeap st)), s_len = s_len s + 1,
                        s_cap = newcap\<rparr>))))"

subsection \<open>The catalog\<close>

text \<open>
  \<^verbatim>\<open>type Resources map[string][]*Resource\<close>: each key once. The order of the entries is
  the order in which a \<^verbatim>\<open>range\<close> loop visits them, which Go leaves open; every
  theorem holds for every order. The value of a key is the list of its resource
  pointers; the package builds these lists by \<^verbatim>\<open>append\<close> from nil and never writes
  into one it was given, so their backing arrays are not part of the store.
\<close>

type_synonym Resources = "(string, addr list) alist"

text \<open>\<open>m[k]\<close>, nil for a missing key, and \<open>m[k] = append(m[k], a)\<close>.\<close>

definition cat_lookup :: "Resources \<Rightarrow> string \<Rightarrow> addr list" where
  "cat_lookup m k = (case DAList.lookup m k of None \<Rightarrow> [] | Some v \<Rightarrow> v)"

definition cat_append :: "Resources \<Rightarrow> string \<Rightarrow> addr \<Rightarrow> Resources" where
  "cat_append m k a = DAList.update k (cat_lookup m k @ [a]) m"

subsection \<open>The parser: indexing\<close>

type_synonym 'sch index_state = "'sch store \<times> Resources \<times> (GroupVersionResource \<rightharpoonup> addr)"

fun indexResources_gv ::
  "('sch, 'err) Parser \<Rightarrow> string \<Rightarrow> string \<Rightarrow> APIResource list \<Rightarrow> 'sch index_state
    \<Rightarrow> 'sch index_state" where
  "indexResources_gv p grp version [] s = s"
| "indexResources_gv p grp version (r # rs) (st, res, bygvr) =
     (let r = defaultGroupVersion r grp version;
          (name, isRes) = resource r
      in if \<not> isRes then indexResources_gv p grp version rs (st, res, bygvr)
         else
           (case getOpenAPI p grp version (Kind r) of
              None \<Rightarrow> indexResources_gv p grp version rs (st, res, bygvr)
            | Some newSchema \<Rightarrow>
                (let (st', newResource) =
                       new_res st \<lparr>rResource = r, rApiGroupVersion = (grp, version),
                                   rSchema = newSchema, rSubResources = nil_slice\<rparr>
                 in indexResources_gv p grp version rs
                      (st', cat_append res name newResource,
                       bygvr((grp, version, Kind r) \<mapsto> newResource)))))"

fun indexResources_loop ::
  "('sch, 'err) Parser \<Rightarrow> APIResourceList list \<Rightarrow> 'sch index_state \<Rightarrow> 'sch index_state" where
  "indexResources_loop p [] s = s"
| "indexResources_loop p (gv # gvs) s =
     (let (grp, version) = splitGroupVersion (GroupVersion gv)
      in if \<not> isGroupVersionMatch p grp version then indexResources_loop p gvs s
         else indexResources_loop p gvs (indexResources_gv p grp version (APIResources gv) s))"

definition indexResources ::
  "('sch, 'err) Parser \<Rightarrow> APIResourceList list \<Rightarrow> 'sch store \<Rightarrow> 'sch index_state" where
  "indexResources p gvs st = indexResources_loop p gvs (st, DAList.empty, Map.empty)"

text \<open>
  The second pass. \<^verbatim>\<open>parent.SubResources = append(parent.SubResources, subRes)\<close> reads
  and writes the parent through its pointer.
\<close>

fun attachSubResources_gv ::
  "('sch, 'err) Parser \<Rightarrow> string \<Rightarrow> string \<Rightarrow> (GroupVersionResource \<rightharpoonup> addr)
    \<Rightarrow> APIResource list \<Rightarrow> 'sch store \<Rightarrow> 'sch store option" where
  "attachSubResources_gv p grp version bygvr [] st = Some st"
| "attachSubResources_gv p grp version bygvr (r # rs) st =
     (let r = defaultGroupVersion r grp version;
          (resourceName, _, isSubResource) = subResource r
      in if \<not> isSubResource then attachSubResources_gv p grp version bygvr rs st
         else
           (case getOpenAPI p grp version (Kind r) of
              None \<Rightarrow> attachSubResources_gv p grp version bygvr rs st
            | Some newSchema \<Rightarrow>
                (case bygvr (grp, version, resourceName) of
                   None \<Rightarrow> attachSubResources_gv p grp version bygvr rs st
                 | Some parent \<Rightarrow>
                     (let (st1, subRes) =
                            new_sub st \<lparr>srResource = r, srParent = parent,
                                        srApiGroupVersion = (grp, version),
                                        srSchema = newSchema\<rparr>
                      in case get_res st1 parent of
                           None \<Rightarrow> None
                         | Some P \<Rightarrow>
                             (case append_slice st1 (rSubResources P) subRes of
                                None \<Rightarrow> None
                              | Some (st2, s') \<Rightarrow>
                                  attachSubResources_gv p grp version bygvr rs
                                    (set_res st2 parent (P\<lparr>rSubResources := s'\<rparr>)))))))"

fun attachSubResources_loop ::
  "('sch, 'err) Parser \<Rightarrow> (GroupVersionResource \<rightharpoonup> addr) \<Rightarrow> APIResourceList list
    \<Rightarrow> 'sch store \<Rightarrow> 'sch store option" where
  "attachSubResources_loop p bygvr [] st = Some st"
| "attachSubResources_loop p bygvr (gv # gvs) st =
     (let (grp, version) = splitGroupVersion (GroupVersion gv)
      in if \<not> isGroupVersionMatch p grp version then attachSubResources_loop p bygvr gvs st
         else
           (case attachSubResources_gv p grp version bygvr (APIResources gv) st of
              None \<Rightarrow> None
            | Some st' \<Rightarrow> attachSubResources_loop p bygvr gvs st'))"

definition attachSubResources ::
  "('sch, 'err) Parser \<Rightarrow> APIResourceList list \<Rightarrow> Resources
    \<Rightarrow> (GroupVersionResource \<rightharpoonup> addr) \<Rightarrow> 'sch store \<Rightarrow> ('sch store \<times> 'err option) option" where
  "attachSubResources p gvs res bygvr st =
     (case attachSubResources_loop p bygvr gvs st of
        None \<Rightarrow> None
      | Some st' \<Rightarrow> Some (st', None))"

text \<open>
  \<^verbatim>\<open>Parser.Resources()\<close>: the two results of Go, the catalog (nil is \<open>None\<close>) and the
  error (nil is \<open>None\<close>), with the store after the call.
\<close>

definition Parser_Resources ::
  "('sch, 'err) Parser \<Rightarrow> 'sch store \<Rightarrow> ('sch store \<times> Resources option \<times> 'err option) option" where
  "Parser_Resources p st =
     (case discovery p of
        (gvs, Some err) \<Rightarrow> Some (st, None, Some err)
      | (gvs, None) \<Rightarrow>
          (let (st1, res, byGVR) = indexResources p gvs st
           in case attachSubResources p gvs res byGVR st1 of
                None \<Rightarrow> None
              | Some (st2, err) \<Rightarrow> Some (st2, Some res, err)))"

subsection \<open>Filters\<close>

text \<open>
  The implementations of the interface \<^verbatim>\<open>Filter\<close> in \<^verbatim>\<open>filter.go\<close>, and a filter
  of another package: a pair of predicates on the structs. \<^verbatim>\<open>hasField\<close>, which
  \<^verbatim>\<open>Resource.HasField\<close> calls on the schema, is a parameter \<open>hf\<close>.
\<close>

datatype 'sch Filter =
    emptyFilter
  | skipSubresourceFilter
  | andFilter "'sch Filter list"
  | orFilter "'sch Filter list"
  | fieldFilter "string list"
  | customFilter "'sch Resource \<Rightarrow> bool" "'sch SubResource \<Rightarrow> bool"

definition Resource_HasField ::
  "('sch \<Rightarrow> string list \<Rightarrow> bool) \<Rightarrow> 'sch Resource \<Rightarrow> string list \<Rightarrow> bool" where
  "Resource_HasField hf r path = hf (rSchema r) path"

text \<open>\<^verbatim>\<open>Resource.APIGroupVersionKind()\<close> of \<^verbatim>\<open>resource.go\<close>.\<close>

definition APIGroupVersionKind :: "'sch Resource \<Rightarrow> string \<times> string \<times> string" where
  "APIGroupVersionKind r =
     (fst (rApiGroupVersion r), snd (rApiGroupVersion r), Kind (rResource r))"

fun Filter_Resource :: "('sch \<Rightarrow> string list \<Rightarrow> bool) \<Rightarrow> 'sch Filter \<Rightarrow> 'sch Resource \<Rightarrow> bool"
  and andFilter_Resource ::
    "('sch \<Rightarrow> string list \<Rightarrow> bool) \<Rightarrow> 'sch Filter list \<Rightarrow> 'sch Resource \<Rightarrow> bool"
  and orFilter_Resource ::
    "('sch \<Rightarrow> string list \<Rightarrow> bool) \<Rightarrow> 'sch Filter list \<Rightarrow> 'sch Resource \<Rightarrow> bool" where
  "Filter_Resource hf emptyFilter r = True"
| "Filter_Resource hf skipSubresourceFilter r = True"
| "Filter_Resource hf (andFilter fs) r = andFilter_Resource hf fs r"
| "Filter_Resource hf (orFilter fs) r = orFilter_Resource hf fs r"
| "Filter_Resource hf (fieldFilter path) r = Resource_HasField hf r path"
| "Filter_Resource hf (customFilter pr ps) r = pr r"
| "andFilter_Resource hf [] r = True"
| "andFilter_Resource hf (f # fs) r =
     (if \<not> Filter_Resource hf f r then False else andFilter_Resource hf fs r)"
| "orFilter_Resource hf [] r = False"
| "orFilter_Resource hf (f # fs) r =
     (if Filter_Resource hf f r then True else orFilter_Resource hf fs r)"

fun Filter_SubResource :: "'sch Filter \<Rightarrow> 'sch SubResource \<Rightarrow> bool"
  and andFilter_SubResource :: "'sch Filter list \<Rightarrow> 'sch SubResource \<Rightarrow> bool"
  and orFilter_SubResource :: "'sch Filter list \<Rightarrow> 'sch SubResource \<Rightarrow> bool" where
  "Filter_SubResource emptyFilter sr = True"
| "Filter_SubResource skipSubresourceFilter sr =
     (\<not> strings_HasSuffix (Name (srResource sr)) ''/status'')"
| "Filter_SubResource (andFilter fs) sr = andFilter_SubResource fs sr"
| "Filter_SubResource (orFilter fs) sr = orFilter_SubResource fs sr"
| "Filter_SubResource (fieldFilter path) sr = True"
| "Filter_SubResource (customFilter pr ps) sr = ps sr"
| "andFilter_SubResource [] sr = True"
| "andFilter_SubResource (f # fs) sr =
     (if \<not> Filter_SubResource f sr then False else andFilter_SubResource fs sr)"
| "orFilter_SubResource [] sr = False"
| "orFilter_SubResource (f # fs) sr =
     (if Filter_SubResource f sr then True else orFilter_SubResource fs sr)"

subsection \<open>The catalog's methods\<close>

definition Resources_SortKeys :: "Resources \<Rightarrow> string list" where
  "Resources_SortKeys r = sort (map fst (DAList.impl_of r))"

text \<open>
  \<^verbatim>\<open>filterSubResources\<close>: the loop reads the subresource slice of its argument, element
  by element, and appends the accepted pointers to the slice \<open>filtered\<close>.
\<close>

fun filterSubResources_loop ::
  "'sch Filter \<Rightarrow> slice \<Rightarrow> nat \<Rightarrow> nat \<Rightarrow> 'sch store \<Rightarrow> slice \<Rightarrow> ('sch store \<times> slice) option" where
  "filterSubResources_loop f src i 0 st filtered = Some (st, filtered)"
| "filterSubResources_loop f src i (Suc n) st filtered =
     (case slice_index st src i of
        None \<Rightarrow> None
      | Some v \<Rightarrow>
          (case get_sub st v of
             None \<Rightarrow> None
           | Some sr \<Rightarrow>
               (if \<not> Filter_SubResource f sr
                then filterSubResources_loop f src (i + 1) n st filtered
                else
                  (case append_slice st filtered v of
                     None \<Rightarrow> None
                   | Some (st', filtered') \<Rightarrow>
                       filterSubResources_loop f src (i + 1) n st' filtered'))))"

definition Resources_filterSubResources ::
  "'sch Filter \<Rightarrow> 'sch Resource \<Rightarrow> 'sch store \<Rightarrow> ('sch store \<times> 'sch Resource) option" where
  "Resources_filterSubResources f res st =
     (let (st0, filtered) = empty_slice st
      in case filterSubResources_loop f (rSubResources res) 0 (s_len (rSubResources res))
                st0 filtered of
           None \<Rightarrow> None
         | Some (st', filtered') \<Rightarrow> Some (st', res\<lparr>rSubResources := filtered'\<rparr>))"

text \<open>
  \<^verbatim>\<open>Filter\<close>: the inner loop over the resources of one key, the outer loop over the
  entries of the catalog. \<open>&copy\<close> is a new object for each accepted resource. The
  predicates of a filter are functions of the struct behind the pointer, so the model
  reads the struct first; for a pointer to a resource that makes no difference.
\<close>

fun Filter_versions ::
  "('sch \<Rightarrow> string list \<Rightarrow> bool) \<Rightarrow> 'sch Filter \<Rightarrow> string \<Rightarrow> addr list \<Rightarrow> 'sch store
    \<Rightarrow> Resources \<Rightarrow> ('sch store \<times> Resources) option" where
  "Filter_versions hf f k [] st filtered = Some (st, filtered)"
| "Filter_versions hf f k (version # vs) st filtered =
     (case get_res st version of
        None \<Rightarrow> None
      | Some res \<Rightarrow>
          (if \<not> Filter_Resource hf f res then Filter_versions hf f k vs st filtered
           else
             (case Resources_filterSubResources f res st of
                None \<Rightarrow> None
              | Some (st1, copy) \<Rightarrow>
                  (let (st2, a) = new_res st1 copy
                   in Filter_versions hf f k vs st2 (cat_append filtered k a)))))"

fun Filter_entries ::
  "('sch \<Rightarrow> string list \<Rightarrow> bool) \<Rightarrow> 'sch Filter \<Rightarrow> (string \<times> addr list) list \<Rightarrow> 'sch store
    \<Rightarrow> Resources \<Rightarrow> ('sch store \<times> Resources) option" where
  "Filter_entries hf f [] st filtered = Some (st, filtered)"
| "Filter_entries hf f ((k, v) # es) st filtered =
     (case Filter_versions hf f k v st filtered of
        None \<Rightarrow> None
      | Some (st', filtered') \<Rightarrow> Filter_entries hf f es st' filtered')"

definition Resources_Filter ::
  "('sch \<Rightarrow> string list \<Rightarrow> bool) \<Rightarrow> 'sch Filter \<Rightarrow> Resources \<Rightarrow> 'sch store
    \<Rightarrow> ('sch store \<times> Resources) option" where
  "Resources_Filter hf f r st = Filter_entries hf f (DAList.impl_of r) st DAList.empty"

subsection \<open>The end-to-end scenario of the specification\<close>

text \<open>
  One announcement \<^verbatim>\<open>apps/v1\<close> with the descriptors \<^verbatim>\<open>deployments\<close> and
  \<^verbatim>\<open>deployments/status\<close>, both of kind \<^verbatim>\<open>Deployment\<close>, a schema lookup that
  resolves \<^verbatim>\<open>(apps, v1, Deployment)\<close>, no configured group or version, and a store
  without objects.
\<close>

definition scenario_deployments :: APIResource where
  "scenario_deployments =
     \<lparr>Name = ''deployments'', Namespaced = False, Group = [], Version = [],
      Kind = ''Deployment'', Verbs = [], ShortNames = [], Categories = []\<rparr>"

definition scenario_status :: APIResource where
  "scenario_status =
     \<lparr>Name = ''deployments/status'', Namespaced = False, Group = [], Version = [],
      Kind = ''Deployment'', Verbs = [], ShortNames = [], Categories = []\<rparr>"

definition scenario_lookup :: "string \<times> string \<times> string \<Rightarrow> nat option" where
  "scenario_lookup gvk = (if gvk = (''apps'', ''v1'', ''Deployment'') then Some 0 else None)"

definition scenario_parser :: "(nat, unit) Parser" where
  "scenario_parser =
     \<lparr>resources = scenario_lookup,
      discovery = ([\<lparr>GroupVersion = ''apps/v1'',
                      APIResources = [scenario_deployments, scenario_status]\<rparr>], None),
      apiGroup = [], apiVersion = []\<rparr>"

definition empty_store :: "'sch store" where
  "empty_store = \<lparr>resHeap = [], subHeap = [], arrHeap = []\<rparr>"

text \<open>
  The scenario with the kind of both descriptors changed to \<^verbatim>\<open>deployments\<close>, the
  resource name.
\<close>

definition kind_is_name_lookup :: "string \<times> string \<times> string \<Rightarrow> nat option" where
  "kind_is_name_lookup gvk =
     (if gvk = (''apps'', ''v1'', ''deployments'') then Some 0 else None)"

definition kind_is_name_parser :: "(nat, unit) Parser" where
  "kind_is_name_parser =
     \<lparr>resources = kind_is_name_lookup,
      discovery = ([\<lparr>GroupVersion = ''apps/v1'',
                      APIResources = [scenario_deployments\<lparr>Kind := ''deployments''\<rparr>,
                                      scenario_status\<lparr>Kind := ''deployments''\<rparr>]\<rparr>], None),
      apiGroup = [], apiVersion = []\<rparr>"

subsection \<open>Well-formed stores\<close>

text \<open>
  A slice header fits the store: the nil slice has length and capacity 0, any other
  slice points to an array that holds its capacity.
\<close>

definition slice_ok :: "'sch store \<Rightarrow> slice \<Rightarrow> bool" where
  "slice_ok st s =
     (case s_ptr s of
        None \<Rightarrow> s_len s = 0 \<and> s_cap s = 0
      | Some p \<Rightarrow>
          p < length (arrHeap st) \<and> s_len s \<le> s_cap s \<and> s_cap s \<le> length (arrHeap st ! p))"

text \<open>
  The store \<open>st'\<close> extends \<open>st\<close>: every object of \<open>st\<close> is in \<open>st'\<close>, at its address
  and unchanged; \<open>st'\<close> may hold more resources and more arrays.
\<close>

definition extends :: "'sch store \<Rightarrow> 'sch store \<Rightarrow> bool" where
  "extends st st' =
     (take (length (resHeap st)) (resHeap st') = resHeap st
      \<and> length (resHeap st) \<le> length (resHeap st')
      \<and> subHeap st' = subHeap st
      \<and> take (length (arrHeap st)) (arrHeap st') = arrHeap st
      \<and> length (arrHeap st) \<le> length (arrHeap st'))"

text \<open>
  A resource pointer of a catalog is well formed when it points to a resource whose
  subresource slice fits the store and holds pointers to subresources. A catalog is well
  formed when all its pointers are: it has no nil entry.
\<close>

definition wf_res :: "'sch store \<Rightarrow> addr \<Rightarrow> bool" where
  "wf_res st a =
     (case get_res st a of
        None \<Rightarrow> False
      | Some R \<Rightarrow>
          slice_ok st (rSubResources R)
          \<and> (case slice_elems st (rSubResources R) of
                None \<Rightarrow> False
              | Some es \<Rightarrow> list_all (\<lambda>v. v < length (subHeap st)) es))"

definition wf_catalog :: "'sch store \<Rightarrow> Resources \<Rightarrow> bool" where
  "wf_catalog st r = list_all (\<lambda>(k, v). list_all (wf_res st) v) (DAList.impl_of r)"

text \<open>
  The resource at \<open>c\<close> in \<open>st'\<close> is the resource at \<open>a\<close> in \<open>st\<close> with its subresource
  list reduced to the subresources that \<open>P\<close> accepts, in their order.
\<close>

definition filtered_copy ::
  "('sch SubResource \<Rightarrow> bool) \<Rightarrow> 'sch store \<Rightarrow> addr \<Rightarrow> 'sch store \<Rightarrow> addr \<Rightarrow> bool" where
  "filtered_copy P st a st' c =
     (case (get_res st a, get_res st' c) of
        (Some R, Some C) \<Rightarrow>
          rResource C = rResource R \<and> rApiGroupVersion C = rApiGroupVersion R
          \<and> rSchema C = rSchema R
          \<and> (case (slice_elems st (rSubResources R), slice_elems st' (rSubResources C)) of
                (Some es, Some es') \<Rightarrow>
                  es' = filter (\<lambda>v. case get_sub st v of None \<Rightarrow> False | Some sr \<Rightarrow> P sr) es
              | _ \<Rightarrow> False)
      | _ \<Rightarrow> False)"

text \<open>
  The resource at \<open>c\<close> in \<open>st'\<close> is an object that \<open>st\<close> does not have, and its
  subresource slice points to an array that \<open>st\<close> does not have.
\<close>

definition fresh_copy :: "'sch store \<Rightarrow> 'sch store \<Rightarrow> addr \<Rightarrow> bool" where
  "fresh_copy st st' c =
     (length (resHeap st) \<le> c
      \<and> (case get_res st' c of
            None \<Rightarrow> False
          | Some C \<Rightarrow>
              slice_ok st' (rSubResources C)
              \<and> (case s_ptr (rSubResources C) of
                    None \<Rightarrow> False
                  | Some p \<Rightarrow> length (arrHeap st) \<le> p)))"

definition is_copy :: "'sch Filter \<Rightarrow> 'sch store \<Rightarrow> 'sch store \<Rightarrow> addr \<Rightarrow> addr \<Rightarrow> bool" where
  "is_copy f st st' a c =
     (filtered_copy (Filter_SubResource f) st a st' c \<and> fresh_copy st st' c)"

text \<open>
  Whether the resource predicate of a filter accepts the resource behind a pointer.
\<close>

definition accepts ::
  "('sch \<Rightarrow> string list \<Rightarrow> bool) \<Rightarrow> 'sch Filter \<Rightarrow> 'sch store \<Rightarrow> addr \<Rightarrow> bool" where
  "accepts hf f st a = (case get_res st a of None \<Rightarrow> False | Some R \<Rightarrow> Filter_Resource hf f R)"

text \<open>
  The content of a catalog: for each key the resources in their order, each with its
  descriptor, group-version, schema and subresources (the pointers and the structs they
  point to).
\<close>

definition res_view ::
  "'sch store \<Rightarrow> addr
    \<Rightarrow> (APIResource \<times> GroupVersion \<times> 'sch \<times> addr list \<times> 'sch SubResource option list) option" where
  "res_view st a =
     (case get_res st a of
        None \<Rightarrow> None
      | Some R \<Rightarrow>
          (case slice_elems st (rSubResources R) of
             None \<Rightarrow> None
           | Some es \<Rightarrow>
               Some (rResource R, rApiGroupVersion R, rSchema R, es, map (get_sub st) es)))"

definition cat_view ::
  "'sch store \<Rightarrow> Resources \<Rightarrow> string
    \<Rightarrow> (APIResource \<times> GroupVersion \<times> 'sch \<times> addr list \<times> 'sch SubResource option list) option list option" where
  "cat_view st cat k = map_option (map (res_view st)) (DAList.lookup cat k)"

text \<open>
  What a caller can do to the subresource list of a resource \<open>c\<close> of a catalog:
  \<^verbatim>\<open>c.SubResources[i] = v\<close>, a panic when \<open>i\<close> is out of range,
  \<^verbatim>\<open>c.SubResources = append(c.SubResources, v)\<close>, and \<^verbatim>\<open>len(c.SubResources)\<close>.
\<close>

definition SubResources_set :: "'sch store \<Rightarrow> addr \<Rightarrow> nat \<Rightarrow> addr \<Rightarrow> 'sch store option" where
  "SubResources_set st c i v =
     (case get_res st c of
        None \<Rightarrow> None
      | Some C \<Rightarrow>
          (case s_ptr (rSubResources C) of
             None \<Rightarrow> None
           | Some p \<Rightarrow>
               (if i < s_len (rSubResources C) \<and> p < length (arrHeap st)
                   \<and> i < length (arrHeap st ! p)
                then Some (st\<lparr>arrHeap := (arrHeap st)[p := (arrHeap st ! p)[i := v]]\<rparr>)
                else None)))"

definition SubResources_append :: "'sch store \<Rightarrow> addr \<Rightarrow> addr \<Rightarrow> 'sch store option" where
  "SubResources_append st c v =
     (case get_res st c of
        None \<Rightarrow> None
      | Some C \<Rightarrow>
          (case append_slice st (rSubResources C) v of
             None \<Rightarrow> None
           | Some (st1, s') \<Rightarrow> Some (set_res st1 c (C\<lparr>rSubResources := s'\<rparr>))))"

definition SubResources_len :: "'sch store \<Rightarrow> addr \<Rightarrow> nat" where
  "SubResources_len st c = (case get_res st c of None \<Rightarrow> 0 | Some C \<Rightarrow> s_len (rSubResources C))"

text \<open>
  An example store: the resource \<^verbatim>\<open>pods\<close> with the subresources \<^verbatim>\<open>pods/status\<close>
  and \<^verbatim>\<open>pods/log\<close>, the resource \<^verbatim>\<open>nodes\<close> without subresources, and the catalog of
  the two. The schemas are numbers; no schema has a field.
\<close>

definition example_descriptor :: "string \<Rightarrow> string \<Rightarrow> APIResource" where
  "example_descriptor n k =
     \<lparr>Name = n, Namespaced = False, Group = [], Version = ''v1'', Kind = k, Verbs = [],
      ShortNames = [], Categories = []\<rparr>"

definition example_store :: "nat store" where
  "example_store =
     \<lparr>resHeap =
        [\<lparr>rResource = example_descriptor ''pods'' ''Pod'', rApiGroupVersion = ([], ''v1''),
          rSchema = 1, rSubResources = \<lparr>s_ptr = Some 0, s_len = 2, s_cap = 2\<rparr>\<rparr>,
         \<lparr>rResource = example_descriptor ''nodes'' ''Node'', rApiGroupVersion = ([], ''v1''),
          rSchema = 2, rSubResources = nil_slice\<rparr>],
      subHeap =
        [\<lparr>srResource = example_descriptor ''pods/status'' ''Pod'', srParent = 0,
          srApiGroupVersion = ([], ''v1''), srSchema = 1\<rparr>,
         \<lparr>srResource = example_descriptor ''pods/log'' ''Pod'', srParent = 0,
          srApiGroupVersion = ([], ''v1''), srSchema = 1\<rparr>],
      arrHeap = [[0, 1]]\<rparr>"

definition example_catalog :: Resources where
  "example_catalog = DAList.update ''nodes'' [1] (DAList.update ''pods'' [0] DAList.empty)"

definition no_field :: "nat \<Rightarrow> string list \<Rightarrow> bool" where
  "no_field s path = False"

text \<open>
  Invariants of the two passes of the parser. Every resource of the catalog has the
  schema that the schema lookup gives for its group, version and kind. Every parent in
  the lookup table of the first pass is a resource whose subresource slice fits the
  store. The second pass changes subresource lists only.
\<close>

definition cat_sound :: "('sch, 'err) Parser \<Rightarrow> 'sch store \<Rightarrow> Resources \<Rightarrow> bool" where
  "cat_sound p st res =
     (\<forall>k. \<forall>a\<in>set (cat_lookup res k).
        a < length (resHeap st)
        \<and> resources p (APIGroupVersionKind (resHeap st ! a)) = Some (rSchema (resHeap st ! a)))"

definition parents_ok :: "'sch store \<Rightarrow> (GroupVersionResource \<rightharpoonup> addr) \<Rightarrow> bool" where
  "parents_ok st bygvr =
     (\<forall>gvr a. bygvr gvr = Some a \<longrightarrow>
        a < length (resHeap st) \<and> slice_ok st (rSubResources (resHeap st ! a)))"

definition same_identity :: "'sch store \<Rightarrow> 'sch store \<Rightarrow> bool" where
  "same_identity st st' =
     (length (resHeap st') = length (resHeap st)
      \<and> (\<forall>a<length (resHeap st).
            rResource (resHeap st' ! a) = rResource (resHeap st ! a)
            \<and> rApiGroupVersion (resHeap st' ! a) = rApiGroupVersion (resHeap st ! a)
            \<and> rSchema (resHeap st' ! a) = rSchema (resHeap st ! a)))"

text \<open>
  An example parser: the announcement \<^verbatim>\<open>v1\<close> with the descriptors \<^verbatim>\<open>pods\<close>,
  \<^verbatim>\<open>pods/status\<close> and \<^verbatim>\<open>nodes\<close>, and a schema lookup that knows the kind
  \<^verbatim>\<open>Pod\<close> only.
\<close>

definition example_lookup :: "string \<times> string \<times> string \<Rightarrow> nat option" where
  "example_lookup gvk = (if gvk = ([], ''v1'', ''Pod'') then Some 1 else None)"

definition example_parser :: "(nat, unit) Parser" where
  "example_parser =
     \<lparr>resources = example_lookup,
      discovery = ([\<lparr>GroupVersion = ''v1'',
                      APIResources = [example_descriptor ''pods'' ''Pod'',
                                      example_descriptor ''pods/status'' ''Pod'',
                                      example_descriptor ''nodes'' ''Node'']\<rparr>], None),
      apiGroup = [], apiVersion = []\<rparr>"

section \<open>Properties\<close>

subsection \<open>The store: frame lemmas\<close>

lemma extends_refl: "extends st st"
  by (simp add: extends_def)

lemma extends_trans: "extends a b \<Longrightarrow> extends b c \<Longrightarrow> extends a c"
  unfolding extends_def
  by (metis (no_types, lifting) le_trans length_take take_take)

lemma extends_res_nth:
  "extends st st' \<Longrightarrow> a < length (resHeap st) \<Longrightarrow> resHeap st' ! a = resHeap st ! a"
  unfolding extends_def by (metis nth_take)

lemma extends_arr_nth:
  "extends st st' \<Longrightarrow> a < length (arrHeap st) \<Longrightarrow> arrHeap st' ! a = arrHeap st ! a"
  unfolding extends_def by (metis nth_take)

lemma get_res_ext: "extends st st' \<Longrightarrow> get_res st a = Some R \<Longrightarrow> get_res st' a = Some R"
  by (auto simp: get_res_def extends_res_nth extends_def split: if_splits)

lemma get_sub_ext: "extends st st' \<Longrightarrow> get_sub st' a = get_sub st a"
  by (simp add: get_sub_def extends_def)

lemma slice_elems_ext:
  "extends st st' \<Longrightarrow> slice_elems st s = Some es \<Longrightarrow> slice_elems st' s = Some es"
  by (auto simp: slice_elems_def extends_arr_nth extends_def split: option.splits if_splits)

lemma slice_ok_ext: "extends st st' \<Longrightarrow> slice_ok st s \<Longrightarrow> slice_ok st' s"
  by (auto simp: slice_ok_def extends_arr_nth extends_def split: option.splits)

lemma slice_ok_elems: "slice_ok st s \<Longrightarrow> \<exists>es. slice_elems st s = Some es \<and> length es = s_len s"
  by (auto simp: slice_ok_def slice_elems_def split: option.splits)

lemma append_slice_spec:
  assumes "slice_ok st s" "slice_elems st s = Some es"
  shows "\<exists>st' s' p'. append_slice st s x = Some (st', s')
           \<and> resHeap st' = resHeap st \<and> subHeap st' = subHeap st
           \<and> slice_ok st' s' \<and> slice_elems st' s' = Some (es @ [x])
           \<and> length (arrHeap st) \<le> length (arrHeap st')
           \<and> (\<forall>q. q < length (arrHeap st) \<longrightarrow> s_ptr s \<noteq> Some q \<longrightarrow> arrHeap st' ! q = arrHeap st ! q)
           \<and> (\<forall>q. q < length (arrHeap st) \<longrightarrow> length (arrHeap st' ! q) = length (arrHeap st ! q))
           \<and> s_ptr s' = Some p' \<and> (s_ptr s = Some p' \<or> p' = length (arrHeap st))"
proof (cases "s_len s < s_cap s")
  case True
  then obtain p where p: "s_ptr s = Some p" "p < length (arrHeap st)" "s_cap s \<le> length (arrHeap st ! p)"
    using assms(1) by (auto simp: slice_ok_def split: option.splits)
  have es: "es = take (s_len s) (arrHeap st ! p)"
    using assms(2) p by (auto simp: slice_elems_def split: if_splits)
  show ?thesis using True p es
    by (auto simp: append_slice_def slice_ok_def slice_elems_def take_Suc_conv_app_nth nth_list_update)
next
  case False
  have len: "length es = s_len s" using assms slice_ok_elems by fastforce
  have "growcap (s_cap s) > s_cap s" by (simp add: growcap_def)
  moreover have "s_len s = s_cap s" using False assms(1) by (auto simp: slice_ok_def split: option.splits)
  ultimately show ?thesis using False assms(2) len
    by (auto simp: append_slice_def slice_ok_def slice_elems_def Let_def nth_append)
qed

subsection \<open>Filtering: the loops\<close>

lemma slice_index_elems:
  "slice_elems st s = Some es \<Longrightarrow> i < length es \<Longrightarrow> slice_index st s i = Some (es ! i)"
  by (simp add: slice_index_def)

lemma slice_elems_frame:
  assumes "slice_elems st s = Some es" "\<And>q. s_ptr s = Some q \<Longrightarrow> q < N"
    and "N \<le> length (arrHeap st)" "take N (arrHeap st') = take N (arrHeap st)"
    and "length (arrHeap st) \<le> length (arrHeap st')"
  shows "slice_elems st' s = Some es"
proof (cases "s_ptr s")
  case None
  then show ?thesis using assms(1) by (simp add: slice_elems_def)
next
  case (Some q)
  then have q: "q < N" using assms(2) by simp
  have "arrHeap st' ! q = arrHeap st ! q"
    using q assms(4) by (metis nth_take)
  then show ?thesis using assms(1,3,5) Some q
    by (auto simp: slice_elems_def split: if_splits)
qed

lemma append_slice_frame:
  assumes ok: "slice_ok st s" and el: "slice_elems st s = Some es"
    and p: "s_ptr s = Some p" "N \<le> p" and N: "N \<le> length (arrHeap st)"
  shows "\<exists>st' s' p'. append_slice st s x = Some (st', s')
           \<and> resHeap st' = resHeap st \<and> subHeap st' = subHeap st
           \<and> slice_ok st' s' \<and> slice_elems st' s' = Some (es @ [x])
           \<and> length (arrHeap st) \<le> length (arrHeap st')
           \<and> take N (arrHeap st') = take N (arrHeap st)
           \<and> s_ptr s' = Some p' \<and> N \<le> p'"
proof -
  from append_slice_spec[OF ok el, of x] obtain st' s' p' where r:
    "append_slice st s x = Some (st', s')" "resHeap st' = resHeap st" "subHeap st' = subHeap st"
    "slice_ok st' s'" "slice_elems st' s' = Some (es @ [x])"
    "length (arrHeap st) \<le> length (arrHeap st')"
    "\<forall>q. q < length (arrHeap st) \<longrightarrow> s_ptr s \<noteq> Some q \<longrightarrow> arrHeap st' ! q = arrHeap st ! q"
    "s_ptr s' = Some p'" "s_ptr s = Some p' \<or> p' = length (arrHeap st)"
    by blast
  have "take N (arrHeap st') = take N (arrHeap st)"
  proof (rule nth_equalityI)
    show "length (take N (arrHeap st')) = length (take N (arrHeap st))"
      using r(6) N by simp
  next
    fix i assume "i < length (take N (arrHeap st'))"
    then have i: "i < N" by simp
    then have "i < length (arrHeap st)" "s_ptr s \<noteq> Some i" using N p by auto
    then have "arrHeap st' ! i = arrHeap st ! i" using r(7) by blast
    then show "take N (arrHeap st') ! i = take N (arrHeap st) ! i" using i by simp
  qed
  moreover have "N \<le> p'" using r(9) p N by auto
  ultimately show ?thesis using r by blast
qed

lemma filterSubResources_loop_spec:
  assumes "N \<le> length (arrHeap st)"
    and "slice_elems st src = Some es"
    and "\<And>q. s_ptr src = Some q \<Longrightarrow> q < N"
    and "i + n = length es"
    and "\<forall>v\<in>set es. v < length (subHeap st)"
    and "slice_ok st flt" "s_ptr flt = Some pf" "N \<le> pf" "slice_elems st flt = Some acc"
  shows "\<exists>st' flt' pf'. filterSubResources_loop f src i n st flt = Some (st', flt')
      \<and> resHeap st' = resHeap st \<and> subHeap st' = subHeap st
      \<and> length (arrHeap st) \<le> length (arrHeap st') \<and> take N (arrHeap st') = take N (arrHeap st)
      \<and> slice_ok st' flt' \<and> s_ptr flt' = Some pf' \<and> N \<le> pf'
      \<and> slice_elems st' flt' =
          Some (acc @ filter (\<lambda>v. Filter_SubResource f (subHeap st ! v)) (drop i es))"
  using assms
proof (induction n arbitrary: i st flt pf acc)
  case 0
  then show ?case by simp
next
  case (Suc n)
  let ?v = "es ! i"
  have i: "i < length es" using Suc.prems(4) by simp
  have idx: "slice_index st src i = Some ?v" using Suc.prems(2) i by (rule slice_index_elems)
  have v: "?v < length (subHeap st)" using Suc.prems(5) i by simp
  then have sub: "get_sub st ?v = Some (subHeap st ! ?v)" by (simp add: get_sub_def)
  have dr: "drop i es = ?v # drop (Suc i) es" using i by (simp add: Cons_nth_drop_Suc)
  show ?case
  proof (cases "Filter_SubResource f (subHeap st ! ?v)")
    case False
    have "Suc i + n = length es" using Suc.prems(4) by simp
    from Suc.IH[OF Suc.prems(1) Suc.prems(2) Suc.prems(3) this Suc.prems(5) Suc.prems(6) Suc.prems(7) Suc.prems(8) Suc.prems(9)]
    show ?thesis using False idx sub dr by simp
  next
    case True
    from append_slice_frame[OF Suc.prems(6) Suc.prems(9) Suc.prems(7) Suc.prems(8) Suc.prems(1), of ?v]
    obtain st1 flt1 p1 where a:
      "append_slice st flt ?v = Some (st1, flt1)" "resHeap st1 = resHeap st" "subHeap st1 = subHeap st"
      "slice_ok st1 flt1" "slice_elems st1 flt1 = Some (acc @ [?v])"
      "length (arrHeap st) \<le> length (arrHeap st1)" "take N (arrHeap st1) = take N (arrHeap st)"
      "s_ptr flt1 = Some p1" "N \<le> p1"
      by blast
    have N1: "N \<le> length (arrHeap st1)" using Suc.prems(1) a(6) by simp
    have src1: "slice_elems st1 src = Some es"
      using slice_elems_frame[OF Suc.prems(2) Suc.prems(3) Suc.prems(1) a(7) a(6)] by simp
    have sub1: "\<forall>v\<in>set es. v < length (subHeap st1)" using Suc.prems(5) a(3) by simp
    have "Suc i + n = length es" using Suc.prems(4) by simp
    from Suc.IH[OF N1 src1 Suc.prems(3) this sub1 a(4) a(8) a(9) a(5)]
    obtain st' flt' pf' where r:
      "filterSubResources_loop f src (Suc i) n st1 flt1 = Some (st', flt')"
      "resHeap st' = resHeap st1" "subHeap st' = subHeap st1"
      "length (arrHeap st1) \<le> length (arrHeap st')" "take N (arrHeap st') = take N (arrHeap st1)"
      "slice_ok st' flt'" "s_ptr flt' = Some pf'" "N \<le> pf'"
      "slice_elems st' flt' =
          Some ((acc @ [?v]) @ filter (\<lambda>v. Filter_SubResource f (subHeap st1 ! v)) (drop (Suc i) es))"
      by blast
    show ?thesis using True idx sub dr a r by simp
  qed
qed

lemma lookup_cat_append:
  "DAList.lookup (cat_append m k a) k' =
     (if k' = k then Some (cat_lookup m k @ [a]) else DAList.lookup m k')"
  by (simp add: cat_append_def lookup_update)

lemma lookup_fold_cat_append:
  "DAList.lookup (fold (\<lambda>a m. cat_append m k a) news m) k' =
     (if k' = k \<and> news \<noteq> [] then Some (cat_lookup m k @ news) else DAList.lookup m k')"
proof (induction news arbitrary: m)
  case Nil
  then show ?case by simp
next
  case (Cons a news)
  then show ?case by (simp add: lookup_cat_append cat_lookup_def)
qed

lemma wf_res_ext:
  assumes ext: "extends st st'" and wf: "wf_res st a"
  shows "wf_res st' a"
proof -
  from wf obtain R es where R: "get_res st a = Some R" "slice_ok st (rSubResources R)"
    "slice_elems st (rSubResources R) = Some es" "list_all (\<lambda>v. v < length (subHeap st)) es"
    by (auto simp: wf_res_def split: option.splits)
  have "get_res st' a = Some R" using get_res_ext[OF ext R(1)] .
  moreover have "slice_ok st' (rSubResources R)" using slice_ok_ext[OF ext R(2)] .
  moreover have "slice_elems st' (rSubResources R) = Some es" using slice_elems_ext[OF ext R(3)] .
  moreover have "subHeap st' = subHeap st" using ext by (simp add: extends_def)
  ultimately show ?thesis using R(4) by (simp add: wf_res_def)
qed

lemma filterSubResources_spec:
  assumes ok: "slice_ok st (rSubResources R)"
    and el: "slice_elems st (rSubResources R) = Some es"
    and sub: "\<forall>v\<in>set es. v < length (subHeap st)"
  shows "\<exists>st' C p. Resources_filterSubResources f R st = Some (st', C)
      \<and> extends st st' \<and> resHeap st' = resHeap st
      \<and> rResource C = rResource R \<and> rApiGroupVersion C = rApiGroupVersion R
      \<and> rSchema C = rSchema R
      \<and> slice_ok st' (rSubResources C)
      \<and> s_ptr (rSubResources C) = Some p \<and> length (arrHeap st) \<le> p
      \<and> slice_elems st' (rSubResources C) =
          Some (filter (\<lambda>v. Filter_SubResource f (subHeap st ! v)) es)"
proof -
  let ?N = "length (arrHeap st)"
  let ?st0 = "st\<lparr>arrHeap := arrHeap st @ [[]]\<rparr>"
  let ?flt = "\<lparr>s_ptr = Some ?N, s_len = 0, s_cap = 0\<rparr>"
  have ext0: "extends st ?st0" by (simp add: extends_def)
  have len: "length es = s_len (rSubResources R)" using slice_ok_elems[OF ok] el by auto
  have 1: "?N \<le> length (arrHeap ?st0)" by simp
  have 2: "slice_elems ?st0 (rSubResources R) = Some es" using slice_elems_ext[OF ext0 el] .
  have 3: "\<And>q. s_ptr (rSubResources R) = Some q \<Longrightarrow> q < ?N"
    using ok by (auto simp: slice_ok_def)
  have 4: "0 + s_len (rSubResources R) = length es" using len by simp
  have 5: "\<forall>v\<in>set es. v < length (subHeap ?st0)" using sub by simp
  have 6: "slice_ok ?st0 ?flt" by (simp add: slice_ok_def)
  have 7: "s_ptr ?flt = Some ?N" by simp
  have 8: "slice_elems ?st0 ?flt = Some []" by (simp add: slice_elems_def)
  from filterSubResources_loop_spec[OF 1 2 3 4 5 6 7 order_refl 8, of f]
  obtain st' flt' pf' where r:
    "filterSubResources_loop f (rSubResources R) 0 (s_len (rSubResources R)) ?st0 ?flt = Some (st', flt')"
    "resHeap st' = resHeap ?st0" "subHeap st' = subHeap ?st0"
    "length (arrHeap ?st0) \<le> length (arrHeap st')" "take ?N (arrHeap st') = take ?N (arrHeap ?st0)"
    "slice_ok st' flt'" "s_ptr flt' = Some pf'" "?N \<le> pf'"
    "slice_elems st' flt' = Some ([] @ filter (\<lambda>v. Filter_SubResource f (subHeap ?st0 ! v)) (drop 0 es))"
    by blast
  have ext: "extends st st'" using r(2,3,4,5) by (simp add: extends_def)
  have "Resources_filterSubResources f R st = Some (st', R\<lparr>rSubResources := flt'\<rparr>)"
    using r(1) by (simp add: Resources_filterSubResources_def empty_slice_def)
  then show ?thesis using ext r by simp
qed

lemma is_copy_ext:
  assumes c: "is_copy f st0 st1 a c" and ext: "extends st1 st2"
  shows "is_copy f st0 st2 a c"
proof -
  from c obtain R C es es' p where h:
    "get_res st0 a = Some R" "get_res st1 c = Some C"
    "rResource C = rResource R" "rApiGroupVersion C = rApiGroupVersion R" "rSchema C = rSchema R"
    "slice_elems st0 (rSubResources R) = Some es" "slice_elems st1 (rSubResources C) = Some es'"
    "es' = filter (\<lambda>v. case get_sub st0 v of None \<Rightarrow> False | Some sr \<Rightarrow> Filter_SubResource f sr) es"
    "length (resHeap st0) \<le> c" "slice_ok st1 (rSubResources C)"
    "s_ptr (rSubResources C) = Some p" "length (arrHeap st0) \<le> p"
    by (auto simp: is_copy_def filtered_copy_def fresh_copy_def split: option.splits)
  have "get_res st2 c = Some C" using get_res_ext[OF ext h(2)] .
  moreover have "slice_elems st2 (rSubResources C) = Some es'" using slice_elems_ext[OF ext h(7)] .
  moreover have "slice_ok st2 (rSubResources C)" using slice_ok_ext[OF ext h(10)] .
  ultimately show ?thesis using h
    by (simp add: is_copy_def filtered_copy_def fresh_copy_def)
qed

lemma Filter_versions_spec:
  assumes "extends st0 st" and "\<forall>a\<in>set vs. wf_res st0 a"
  shows "\<exists>st' news. Filter_versions hf f k vs st flt
            = Some (st', fold (\<lambda>a m. cat_append m k a) news flt)
      \<and> extends st st'
      \<and> list_all2 (is_copy f st0 st') (filter (\<lambda>a. Filter_Resource hf f (resHeap st0 ! a)) vs) news"
  using assms
proof (induction vs arbitrary: st flt)
  case Nil
  have "Filter_versions hf f k [] st flt = Some (st, fold (\<lambda>a m. cat_append m k a) [] flt)" by simp
  then show ?case using extends_refl by fastforce
next
  case (Cons a vs)
  have ext0: "extends st0 st" using Cons.prems(1) .
  have wfa0: "wf_res st0 a" and wfvs: "\<forall>a\<in>set vs. wf_res st0 a" using Cons.prems(2) by auto
  from wfa0 obtain R es where R0: "get_res st0 a = Some R" "slice_ok st0 (rSubResources R)"
    "slice_elems st0 (rSubResources R) = Some es" "list_all (\<lambda>v. v < length (subHeap st0)) es"
    by (auto simp: wf_res_def split: option.splits)
  have Rnth: "resHeap st0 ! a = R" using R0(1) by (auto simp: get_res_def split: if_splits)
  have R: "get_res st a = Some R" using get_res_ext[OF ext0 R0(1)] .
  have sh: "subHeap st = subHeap st0" using ext0 by (simp add: extends_def)
  show ?case
  proof (cases "Filter_Resource hf f R")
    case False
    from Cons.IH[OF ext0 wfvs, of flt] show ?thesis using False R Rnth by simp
  next
    case True
    have ok: "slice_ok st (rSubResources R)" using slice_ok_ext[OF ext0 R0(2)] .
    have el: "slice_elems st (rSubResources R) = Some es" using slice_elems_ext[OF ext0 R0(3)] .
    have sub: "\<forall>v\<in>set es. v < length (subHeap st)" using R0(4) sh by (simp add: list_all_iff)
    from filterSubResources_spec[OF ok el sub, of f] obtain st1 C p where f1:
      "Resources_filterSubResources f R st = Some (st1, C)"
      "extends st st1" "resHeap st1 = resHeap st"
      "rResource C = rResource R" "rApiGroupVersion C = rApiGroupVersion R" "rSchema C = rSchema R"
      "slice_ok st1 (rSubResources C)" "s_ptr (rSubResources C) = Some p" "length (arrHeap st) \<le> p"
      "slice_elems st1 (rSubResources C) = Some (filter (\<lambda>v. Filter_SubResource f (subHeap st ! v)) es)"
      by blast
    let ?st2 = "st1\<lparr>resHeap := resHeap st1 @ [C]\<rparr>"
    let ?c = "length (resHeap st1)"
    have nr: "new_res st1 C = (?st2, ?c)" by (simp add: new_res_def)
    have e12: "extends st1 ?st2" by (simp add: extends_def)
    have e02: "extends st0 ?st2" using extends_trans[OF extends_trans[OF ext0 f1(2)] e12] .
    have es2: "extends st ?st2" using extends_trans[OF f1(2) e12] .
    from Cons.IH[OF e02 wfvs, of "cat_append flt k ?c"] obtain st' news where ih:
      "Filter_versions hf f k vs ?st2 (cat_append flt k ?c)
         = Some (st', fold (\<lambda>a m. cat_append m k a) news (cat_append flt k ?c))"
      "extends ?st2 st'"
      "list_all2 (is_copy f st0 st') (filter (\<lambda>a. Filter_Resource hf f (resHeap st0 ! a)) vs) news"
      by blast
    have filt: "filter (\<lambda>v. Filter_SubResource f (subHeap st ! v)) es
        = filter (\<lambda>v. case get_sub st0 v of None \<Rightarrow> False | Some sr \<Rightarrow> Filter_SubResource f sr) es"
      using R0(4) sh by (intro filter_cong) (auto simp: get_sub_def list_all_iff)
    have gc: "get_res ?st2 ?c = Some C" by (simp add: get_res_def)
    have l0: "length (resHeap st0) \<le> ?c" using ext0 f1(3) by (simp add: extends_def)
    have a0: "length (arrHeap st0) \<le> p" using ext0 f1(9) by (simp add: extends_def)
    have "is_copy f st0 ?st2 a ?c"
      using R0(1,3) gc f1(4,5,6,8) slice_elems_ext[OF e12 f1(10)] slice_ok_ext[OF e12 f1(7)] filt l0 a0
      by (simp add: is_copy_def filtered_copy_def fresh_copy_def)
    then have cp: "is_copy f st0 st' a ?c" using is_copy_ext ih(2) by blast
    have run: "Filter_versions hf f k (a # vs) st flt
        = Some (st', fold (\<lambda>a m. cat_append m k a) (?c # news) flt)"
      using True R f1(1) nr ih(1) by simp
    have "extends st st'" using extends_trans[OF es2 ih(2)] .
    moreover have "list_all2 (is_copy f st0 st')
        (filter (\<lambda>a. Filter_Resource hf f (resHeap st0 ! a)) (a # vs)) (?c # news)"
      using True Rnth cp ih(3) by simp
    ultimately show ?thesis using run by blast
  qed
qed

lemma list_all2_is_copy_ext:
  "list_all2 (is_copy f st0 st1) xs ys \<Longrightarrow> extends st1 st2 \<Longrightarrow> list_all2 (is_copy f st0 st2) xs ys"
  by (erule list_all2_mono) (rule is_copy_ext)

lemma Filter_entries_spec:
  assumes "extends st0 st" and "\<forall>(k, v)\<in>set es. \<forall>a\<in>set v. wf_res st0 a"
    and "distinct (map fst es)" and "\<forall>k\<in>fst ` set es. DAList.lookup flt k = None"
  shows "\<exists>st' flt'. Filter_entries hf f es st flt = Some (st', flt')
      \<and> extends st st'
      \<and> (\<forall>k. k \<notin> fst ` set es \<longrightarrow> DAList.lookup flt' k = DAList.lookup flt k)
      \<and> (\<forall>(k, v)\<in>set es. \<exists>news.
            list_all2 (is_copy f st0 st') (filter (\<lambda>a. Filter_Resource hf f (resHeap st0 ! a)) v) news
            \<and> DAList.lookup flt' k = (if news = [] then None else Some news))"
  using assms
proof (induction es arbitrary: st flt)
  case Nil
  then show ?case using extends_refl by simp
next
  case (Cons e es)
  obtain k v where e: "e = (k, v)" by (cases e)
  have wfv: "\<forall>a\<in>set v. wf_res st0 a" and wfes: "\<forall>(k, v)\<in>set es. \<forall>a\<in>set v. wf_res st0 a"
    using Cons.prems(2) e by auto
  have kn: "k \<notin> fst ` set es" and des: "distinct (map fst es)" using Cons.prems(3) e by auto
  have fk: "DAList.lookup flt k = None" using Cons.prems(4) e by simp
  from Filter_versions_spec[OF Cons.prems(1) wfv, of hf f k flt] obtain st1 news where v1:
    "Filter_versions hf f k v st flt = Some (st1, fold (\<lambda>a m. cat_append m k a) news flt)"
    "extends st st1"
    "list_all2 (is_copy f st0 st1) (filter (\<lambda>a. Filter_Resource hf f (resHeap st0 ! a)) v) news"
    by blast
  let ?flt1 = "fold (\<lambda>a m. cat_append m k a) news flt"
  have l1: "\<And>k'. DAList.lookup ?flt1 k' =
      (if k' = k then (if news = [] then None else Some news) else DAList.lookup flt k')"
    using fk by (simp add: lookup_fold_cat_append cat_lookup_def)
  have e01: "extends st0 st1" using extends_trans[OF Cons.prems(1) v1(2)] .
  have f1: "\<forall>k'\<in>fst ` set es. DAList.lookup ?flt1 k' = None"
    using Cons.prems(4) kn l1 by auto
  from Cons.IH[OF e01 wfes des f1] obtain st' flt' where ih:
    "Filter_entries hf f es st1 ?flt1 = Some (st', flt')"
    "extends st1 st'"
    "\<forall>k'. k' \<notin> fst ` set es \<longrightarrow> DAList.lookup flt' k' = DAList.lookup ?flt1 k'"
    "\<forall>(k, v)\<in>set es. \<exists>news.
        list_all2 (is_copy f st0 st') (filter (\<lambda>a. Filter_Resource hf f (resHeap st0 ! a)) v) news
        \<and> DAList.lookup flt' k = (if news = [] then None else Some news)"
    by blast
  have run: "Filter_entries hf f (e # es) st flt = Some (st', flt')" using e v1(1) ih(1) by simp
  have ext: "extends st st'" using extends_trans[OF v1(2) ih(2)] .
  have other: "\<forall>k'. k' \<notin> fst ` set (e # es) \<longrightarrow> DAList.lookup flt' k' = DAList.lookup flt k'"
    using ih(3) l1 e by auto
  have here: "list_all2 (is_copy f st0 st') (filter (\<lambda>a. Filter_Resource hf f (resHeap st0 ! a)) v) news
        \<and> DAList.lookup flt' k = (if news = [] then None else Some news)"
    using list_all2_is_copy_ext[OF v1(3) ih(2)] ih(3) kn l1 by simp
  have "\<forall>(k, v)\<in>set (e # es). \<exists>news.
        list_all2 (is_copy f st0 st') (filter (\<lambda>a. Filter_Resource hf f (resHeap st0 ! a)) v) news
        \<and> DAList.lookup flt' k = (if news = [] then None else Some news)"
    using here ih(4) e by auto
  then show ?case using run ext other by blast
qed

lemma Resources_Filter_spec:
  assumes wf: "wf_catalog st cat"
  shows "\<exists>st' cat'. Resources_Filter hf f cat st = Some (st', cat')
      \<and> extends st st'
      \<and> (\<forall>k. list_all2 (is_copy f st st')
                (filter (\<lambda>a. Filter_Resource hf f (resHeap st ! a)) (cat_lookup cat k))
                (cat_lookup cat' k))
      \<and> (\<forall>k. DAList.lookup cat' k \<noteq> Some [])"
proof -
  let ?es = "DAList.impl_of cat"
  have 2: "\<forall>(k, v)\<in>set ?es. \<forall>a\<in>set v. wf_res st a"
    using wf by (auto simp: wf_catalog_def list_all_iff)
  have 3: "distinct (map fst ?es)" by simp
  have 4: "\<forall>k\<in>fst ` set ?es. DAList.lookup (DAList.empty :: Resources) k = None" by simp
  from Filter_entries_spec[OF extends_refl 2 3 4, of hf f] obtain st' cat' where r:
    "Filter_entries hf f ?es st DAList.empty = Some (st', cat')"
    "extends st st'"
    "\<forall>k. k \<notin> fst ` set ?es \<longrightarrow> DAList.lookup cat' k = DAList.lookup (DAList.empty :: Resources) k"
    "\<forall>(k, v)\<in>set ?es. \<exists>news.
        list_all2 (is_copy f st st') (filter (\<lambda>a. Filter_Resource hf f (resHeap st ! a)) v) news
        \<and> DAList.lookup cat' k = (if news = [] then None else Some news)"
    by blast
  have A: "list_all2 (is_copy f st st')
                (filter (\<lambda>a. Filter_Resource hf f (resHeap st ! a)) (cat_lookup cat k))
                (cat_lookup cat' k) \<and> DAList.lookup cat' k \<noteq> Some []" for k
  proof (cases "DAList.lookup cat k")
    case None
    then have "k \<notin> fst ` set ?es" by (simp add: lookup.rep_eq map_of_eq_None_iff)
    then have "DAList.lookup cat' k = None" using r(3) by simp
    then show ?thesis using None by (simp add: cat_lookup_def)
  next
    case (Some v)
    then have "(k, v) \<in> set ?es" by (auto simp: lookup.rep_eq dest: map_of_SomeD)
    then obtain news where
      "list_all2 (is_copy f st st') (filter (\<lambda>a. Filter_Resource hf f (resHeap st ! a)) v) news"
      "DAList.lookup cat' k = (if news = [] then None else Some news)"
      using r(4) by blast
    then show ?thesis using Some by (auto simp: cat_lookup_def)
  qed
  have "Resources_Filter hf f cat st = Some (st', cat')" using r(1) by (simp add: Resources_Filter_def)
  then show ?thesis using r(2) A by blast
qed

lemma wf_example: "wf_catalog example_store example_catalog"
  by (simp add: wf_catalog_def example_catalog_def update.rep_eq empty.rep_eq wf_res_def
      example_store_def get_res_def slice_ok_def slice_elems_def nil_slice_def)

lemma accepts_wf: "wf_res st a \<Longrightarrow> accepts hf f st a = Filter_Resource hf f (resHeap st ! a)"
  by (auto simp: wf_res_def accepts_def get_res_def split: option.splits if_splits)

lemma filter_accepts_wf:
  "\<forall>a\<in>set vs. wf_res st a \<Longrightarrow>
     filter (\<lambda>a. Filter_Resource hf f (resHeap st ! a)) vs = filter (accepts hf f st) vs"
  by (rule filter_cong) (simp_all add: accepts_wf)

lemma wf_catalog_lookup: "wf_catalog st cat \<Longrightarrow> \<forall>a\<in>set (cat_lookup cat k). wf_res st a"
  by (auto simp: wf_catalog_def cat_lookup_def list_all_iff lookup.rep_eq
      split: option.splits dest!: map_of_SomeD)

lemma Resources_Filter_accepts:
  assumes wf: "wf_catalog st cat"
  shows "\<exists>st' cat'. Resources_Filter hf f cat st = Some (st', cat')
      \<and> extends st st'
      \<and> (\<forall>k. list_all2 (is_copy f st st') (filter (accepts hf f st) (cat_lookup cat k))
                (cat_lookup cat' k))
      \<and> (\<forall>k. DAList.lookup cat' k \<noteq> Some [])"
proof -
  from Resources_Filter_spec[OF wf, of hf f] obtain st' cat' where r:
    "Resources_Filter hf f cat st = Some (st', cat')" "extends st st'"
    "\<forall>k. list_all2 (is_copy f st st')
                (filter (\<lambda>a. Filter_Resource hf f (resHeap st ! a)) (cat_lookup cat k))
                (cat_lookup cat' k)"
    "\<forall>k. DAList.lookup cat' k \<noteq> Some []"
    by blast
  have "\<forall>k. list_all2 (is_copy f st st') (filter (accepts hf f st) (cat_lookup cat k))
                (cat_lookup cat' k)"
    using r(3) filter_accepts_wf[OF wf_catalog_lookup[OF wf]] by metis
  then show ?thesis using r(1,2,4) by blast
qed

lemma filter_accepts_all:
  assumes "\<forall>a\<in>set vs. wf_res st a" "\<And>R. Filter_Resource hf f R"
  shows "filter (accepts hf f st) vs = vs"
  using assms by (auto simp: accepts_def wf_res_def filter_id_conv split: option.splits)

lemma Filter_SubResource_skip:
  "Filter_SubResource skipSubresourceFilter
     = (\<lambda>sr. \<not> strings_HasSuffix (Name (srResource sr)) ''/status'')"
  by (rule ext) simp

lemma res_view_ext:
  assumes ext: "extends st st'" and wf: "wf_res st a"
  shows "res_view st' a = res_view st a"
proof -
  from wf obtain R es where R: "get_res st a = Some R"
    "slice_elems st (rSubResources R) = Some es"
    by (auto simp: wf_res_def split: option.splits)
  have "get_res st' a = Some R" using get_res_ext[OF ext R(1)] .
  moreover have "slice_elems st' (rSubResources R) = Some es" using slice_elems_ext[OF ext R(2)] .
  moreover have "map (get_sub st') es = map (get_sub st) es" using get_sub_ext[OF ext] by simp
  ultimately show ?thesis using R by (simp add: res_view_def)
qed

lemma cat_view_ext:
  assumes ext: "extends st st'" and wf: "wf_catalog st cat"
  shows "cat_view st' cat = cat_view st cat"
proof (rule HOL.ext)
  fix k
  have "map (res_view st') (cat_lookup cat k) = map (res_view st) (cat_lookup cat k)"
    using wf_catalog_lookup[OF wf, of k] res_view_ext[OF ext] by simp
  then show "cat_view st' cat k = cat_view st cat k"
    by (cases "DAList.lookup cat k") (simp_all add: cat_view_def cat_lookup_def)
qed

lemma SubResources_set_extends:
  assumes ext: "extends st st'" and fr: "fresh_copy st st' c"
    and set: "SubResources_set st' c i v = Some st''"
  shows "extends st st''"
proof -
  from fr obtain C p where C: "get_res st' c = Some C" "s_ptr (rSubResources C) = Some p"
    "length (arrHeap st) \<le> p"
    by (auto simp: fresh_copy_def split: option.splits)
  from set C have st'': "st'' = st'\<lparr>arrHeap := (arrHeap st')[p := (arrHeap st' ! p)[i := v]]\<rparr>"
    by (auto simp: SubResources_set_def split: if_splits)
  show ?thesis using ext C(3) unfolding st'' by (simp add: extends_def)
qed

lemma SubResources_set_total:
  assumes fr: "fresh_copy st st' c" and i: "i < SubResources_len st' c"
  shows "\<exists>st''. SubResources_set st' c i v = Some st''"
proof -
  from fr obtain C p where C: "get_res st' c = Some C" "s_ptr (rSubResources C) = Some p"
    "slice_ok st' (rSubResources C)"
    by (auto simp: fresh_copy_def split: option.splits)
  then show ?thesis using i
    by (auto simp: SubResources_set_def SubResources_len_def slice_ok_def)
qed

lemma SubResources_append_extends:
  assumes ext: "extends st st'" and fr: "fresh_copy st st' c"
  shows "\<exists>st''. SubResources_append st' c v = Some st'' \<and> extends st st''"
proof -
  from fr obtain C p where C: "get_res st' c = Some C" "s_ptr (rSubResources C) = Some p"
    "length (arrHeap st) \<le> p" "slice_ok st' (rSubResources C)" "length (resHeap st) \<le> c"
    by (auto simp: fresh_copy_def split: option.splits)
  obtain es where es: "slice_elems st' (rSubResources C) = Some es"
    using slice_ok_elems[OF C(4)] by blast
  have N: "length (arrHeap st) \<le> length (arrHeap st')" using ext by (simp add: extends_def)
  from append_slice_frame[OF C(4) es C(2) C(3) N, of v] obtain st1 s' where a:
    "append_slice st' (rSubResources C) v = Some (st1, s')"
    "resHeap st1 = resHeap st'" "subHeap st1 = subHeap st'"
    "length (arrHeap st') \<le> length (arrHeap st1)"
    "take (length (arrHeap st)) (arrHeap st1) = take (length (arrHeap st)) (arrHeap st')"
    by blast
  let ?st'' = "set_res st1 c (C\<lparr>rSubResources := s'\<rparr>)"
  have run: "SubResources_append st' c v = Some ?st''"
    using C(1) a(1) by (simp add: SubResources_append_def)
  have "extends st ?st''"
    using ext a(2,3,4,5) C(5) by (simp add: extends_def set_res_def)
  then show ?thesis using run by blast
qed

lemma list_all2_map_eq: "list_all2 (\<lambda>x y. f x = g y) xs ys \<Longrightarrow> map f xs = map g ys"
  by (induction rule: list_all2_induct) simp_all

lemma is_copy_emptyFilter_view:
  assumes wf: "wf_res st a" and cp: "is_copy emptyFilter st st' a c" and ext: "extends st st'"
  shows "res_view st a = res_view st' c"
proof -
  from wf obtain R es where R: "get_res st a = Some R"
    "slice_elems st (rSubResources R) = Some es" "list_all (\<lambda>v. v < length (subHeap st)) es"
    by (auto simp: wf_res_def split: option.splits)
  from cp R obtain C es' where C: "get_res st' c = Some C"
    "rResource C = rResource R" "rApiGroupVersion C = rApiGroupVersion R" "rSchema C = rSchema R"
    "slice_elems st' (rSubResources C) = Some es'"
    "es' = filter (\<lambda>v. case get_sub st v of None \<Rightarrow> False | Some sr \<Rightarrow> Filter_SubResource emptyFilter sr) es"
    by (auto simp: is_copy_def filtered_copy_def split: option.splits)
  have "es' = es" using C(6) R(3)
    by (auto simp: filter_id_conv list_all_iff get_sub_def)
  moreover have "map (get_sub st') es = map (get_sub st) es" using get_sub_ext[OF ext] by simp
  ultimately show ?thesis using R C by (simp add: res_view_def)
qed

lemma list_all2_right: "list_all2 (\<lambda>x y. Q y) xs ys \<Longrightarrow> list_all Q ys"
  by (induction rule: list_all2_induct) simp_all

subsection \<open>The parser: invariants of the two passes\<close>

lemma cat_lookup_cat_append:
  "cat_lookup (cat_append m k a) k' = (if k' = k then cat_lookup m k @ [a] else cat_lookup m k')"
  by (simp add: cat_lookup_def lookup_cat_append)

lemma cat_lookup_empty: "cat_lookup DAList.empty k = []"
  by (simp add: cat_lookup_def)

lemma slice_ok_arrHeap: "arrHeap st' = arrHeap st \<Longrightarrow> slice_ok st' s = slice_ok st s"
  by (simp add: slice_ok_def split: option.splits)

lemma indexResources_gv_inv:
  assumes "cat_sound p st res" "parents_ok st bygvr"
    and "indexResources_gv p grp version rs (st, res, bygvr) = (st', res', bygvr')"
  shows "cat_sound p st' res' \<and> parents_ok st' bygvr'"
  using assms
proof (induction rs arbitrary: st res bygvr)
  case Nil
  then show ?case by simp
next
  case (Cons r rs)
  let ?r = "defaultGroupVersion r grp version"
  obtain name isRes where nm: "resource ?r = (name, isRes)" by (cases "resource ?r")
  show ?case
  proof (cases "isRes \<and> getOpenAPI p grp version (Kind ?r) \<noteq> None")
    case False
    then have "indexResources_gv p grp version (r # rs) (st, res, bygvr)
        = indexResources_gv p grp version rs (st, res, bygvr)"
      using nm by (auto simp: Let_def)
    then show ?thesis using Cons by simp
  next
    case True
    then obtain newSchema where sch: "getOpenAPI p grp version (Kind ?r) = Some newSchema"
      and isRes: "isRes" by auto
    let ?R = "\<lparr>rResource = ?r, rApiGroupVersion = (grp, version), rSchema = newSchema,
               rSubResources = nil_slice\<rparr>"
    let ?st1 = "st\<lparr>resHeap := resHeap st @ [?R]\<rparr>"
    let ?a = "length (resHeap st)"
    let ?res1 = "cat_append res name ?a"
    let ?by1 = "bygvr((grp, version, Kind ?r) \<mapsto> ?a)"
    have step: "indexResources_gv p grp version (r # rs) (st, res, bygvr)
        = indexResources_gv p grp version rs (?st1, ?res1, ?by1)"
      using nm sch isRes by (simp add: Let_def new_res_def)
    have old: "a < length (resHeap st) \<and>
        resources p (APIGroupVersionKind (resHeap st ! a)) = Some (rSchema (resHeap st ! a))"
      if "a \<in> set (cat_lookup res k)" for k a
      using Cons.prems(1) that unfolding cat_sound_def by blast
    have s1: "cat_sound p ?st1 ?res1"
      unfolding cat_sound_def
    proof (intro allI ballI)
      fix k a assume "a \<in> set (cat_lookup ?res1 k)"
      then consider "a = ?a" | k' where "a \<in> set (cat_lookup res k')"
        by (auto simp: cat_lookup_cat_append split: if_splits)
      then show "a < length (resHeap ?st1) \<and>
          resources p (APIGroupVersionKind (resHeap ?st1 ! a)) = Some (rSchema (resHeap ?st1 ! a))"
      proof cases
        case 1
        then show ?thesis using sch by (simp add: getOpenAPI_def APIGroupVersionKind_def)
      next
        case 2
        then show ?thesis using old[OF 2] by (simp add: nth_append)
      qed
    qed
    have oldp: "a < length (resHeap st) \<and> slice_ok st (rSubResources (resHeap st ! a))"
      if "bygvr gvr = Some a" for gvr a
      using Cons.prems(2) that unfolding parents_ok_def by blast
    have p1: "parents_ok ?st1 ?by1"
      unfolding parents_ok_def
    proof (intro allI impI)
      fix gvr a assume h: "?by1 gvr = Some a"
      show "a < length (resHeap ?st1) \<and> slice_ok ?st1 (rSubResources (resHeap ?st1 ! a))"
      proof (cases "gvr = (grp, version, Kind ?r)")
        case True
        then have "a = ?a" using h by simp
        then show ?thesis by (simp add: slice_ok_def nil_slice_def)
      next
        case False
        then have "bygvr gvr = Some a" using h by simp
        then have o: "a < length (resHeap st)" "slice_ok st (rSubResources (resHeap st ! a))"
          using oldp by blast+
        have "slice_ok ?st1 (rSubResources (resHeap st ! a)) = slice_ok st (rSubResources (resHeap st ! a))"
          by (rule slice_ok_arrHeap) simp
        then show ?thesis using o by (simp add: nth_append)
      qed
    qed
    have "indexResources_gv p grp version rs (?st1, ?res1, ?by1) = (st', res', bygvr')"
      using Cons.prems(3) by (simp only: step)
    then show ?thesis by (rule Cons.IH[OF s1 p1])
  qed
qed

lemma indexResources_loop_inv:
  assumes "cat_sound p st res" "parents_ok st bygvr"
    and "indexResources_loop p gvs (st, res, bygvr) = (st', res', bygvr')"
  shows "cat_sound p st' res' \<and> parents_ok st' bygvr'"
  using assms
proof (induction gvs arbitrary: st res bygvr)
  case Nil
  then show ?case by simp
next
  case (Cons gv gvs)
  obtain grp version where sp: "splitGroupVersion (GroupVersion gv) = (grp, version)"
    by (cases "splitGroupVersion (GroupVersion gv)")
  show ?case
  proof (cases "isGroupVersionMatch p grp version")
    case False
    then show ?thesis using Cons sp by simp
  next
    case True
    obtain st1 res1 by1 where
      g: "indexResources_gv p grp version (APIResources gv) (st, res, bygvr) = (st1, res1, by1)"
      by (cases "indexResources_gv p grp version (APIResources gv) (st, res, bygvr)")
    have i1: "cat_sound p st1 res1 \<and> parents_ok st1 by1"
      using indexResources_gv_inv[OF Cons.prems(1) Cons.prems(2) g] .
    have "indexResources_loop p gvs (st1, res1, by1) = (st', res', bygvr')"
      using Cons.prems(3) sp True g by simp
    then show ?thesis using Cons.IH i1 by blast
  qed
qed

lemma indexResources_inv:
  assumes "indexResources p gvs st = (st', res', bygvr')"
  shows "cat_sound p st' res' \<and> parents_ok st' bygvr'"
proof -
  have "cat_sound p st DAList.empty" by (simp add: cat_sound_def cat_lookup_empty)
  moreover have "parents_ok st Map.empty" by (simp add: parents_ok_def)
  ultimately show ?thesis using indexResources_loop_inv assms unfolding indexResources_def by blast
qed

lemma same_identity_refl: "same_identity st st"
  by (simp add: same_identity_def)

lemma same_identity_trans: "same_identity a b \<Longrightarrow> same_identity b c \<Longrightarrow> same_identity a c"
  by (simp add: same_identity_def)

lemma append_slice_keeps_ok:
  assumes ok: "slice_ok st s" and ap: "append_slice st s x = Some (st', s')"
    and t: "slice_ok st t"
  shows "slice_ok st' t"
proof -
  obtain es where "slice_elems st s = Some es" using slice_ok_elems[OF ok] by blast
  from append_slice_spec[OF ok this, of x] ap have f:
    "length (arrHeap st) \<le> length (arrHeap st')"
    "\<forall>q. q < length (arrHeap st) \<longrightarrow> length (arrHeap st' ! q) = length (arrHeap st ! q)"
    by auto
  show ?thesis
  proof (cases "s_ptr t")
    case None
    then show ?thesis using t by (simp add: slice_ok_def)
  next
    case (Some q)
    then have q: "q < length (arrHeap st)" "s_len t \<le> s_cap t" "s_cap t \<le> length (arrHeap st ! q)"
      using t by (auto simp: slice_ok_def)
    then have "length (arrHeap st' ! q) = length (arrHeap st ! q)" using f(2) by blast
    then show ?thesis using Some q f(1) by (simp add: slice_ok_def)
  qed
qed

lemma attachSubResources_gv_ok:
  assumes "parents_ok st bygvr"
  shows "\<exists>st'. attachSubResources_gv p grp version bygvr rs st = Some st'
      \<and> parents_ok st' bygvr \<and> same_identity st st'"
  using assms
proof (induction rs arbitrary: st)
  case Nil
  then show ?case by (simp add: same_identity_refl)
next
  case (Cons r rs)
  let ?r = "defaultGroupVersion r grp version"
  obtain resourceName sub isSub where nm: "subResource ?r = (resourceName, sub, isSub)"
    by (cases "subResource ?r")
  show ?case
  proof (cases "isSub \<and> getOpenAPI p grp version (Kind ?r) \<noteq> None
                 \<and> bygvr (grp, version, resourceName) \<noteq> None")
    case False
    then have "attachSubResources_gv p grp version bygvr (r # rs) st
        = attachSubResources_gv p grp version bygvr rs st"
      using nm by (auto simp: Let_def split: option.splits)
    then show ?thesis using Cons.IH[OF Cons.prems] by simp
  next
    case True
    then obtain newSchema parent where sch: "getOpenAPI p grp version (Kind ?r) = Some newSchema"
      and par: "bygvr (grp, version, resourceName) = Some parent" and isSub: "isSub" by auto
    let ?S = "\<lparr>srResource = ?r, srParent = parent, srApiGroupVersion = (grp, version),
               srSchema = newSchema\<rparr>"
    let ?st1 = "st\<lparr>subHeap := subHeap st @ [?S]\<rparr>"
    let ?subRes = "length (subHeap st)"
    let ?P = "resHeap st ! parent"
    have pok: "parent < length (resHeap st)" "slice_ok st (rSubResources ?P)"
      using Cons.prems par unfolding parents_ok_def by blast+
    have g1: "get_res ?st1 parent = Some ?P" using pok(1) by (simp add: get_res_def)
    have "slice_ok ?st1 (rSubResources ?P) = slice_ok st (rSubResources ?P)"
      by (rule slice_ok_arrHeap) simp
    then have ok1: "slice_ok ?st1 (rSubResources ?P)" using pok(2) by simp
    obtain es where es: "slice_elems ?st1 (rSubResources ?P) = Some es"
      using slice_ok_elems[OF ok1] by blast
    from append_slice_spec[OF ok1 es, of ?subRes] obtain st2 s' where a:
      "append_slice ?st1 (rSubResources ?P) ?subRes = Some (st2, s')"
      "resHeap st2 = resHeap ?st1" "slice_ok st2 s'"
      by blast
    let ?st3 = "set_res st2 parent (?P\<lparr>rSubResources := s'\<rparr>)"
    have step: "attachSubResources_gv p grp version bygvr (r # rs) st
        = attachSubResources_gv p grp version bygvr rs ?st3"
      using nm sch par isSub g1 a(1) by (simp add: Let_def new_sub_def)
    have r3: "resHeap ?st3 = (resHeap st)[parent := ?P\<lparr>rSubResources := s'\<rparr>]"
      using a(2) by (simp add: set_res_def)
    have a3: "arrHeap ?st3 = arrHeap st2" by (simp add: set_res_def)
    have p3: "parents_ok ?st3 bygvr"
      unfolding parents_ok_def
    proof (intro allI impI)
      fix gvr b assume h: "bygvr gvr = Some b"
      have b: "b < length (resHeap st)" "slice_ok st (rSubResources (resHeap st ! b))"
        using Cons.prems h unfolding parents_ok_def by blast+
      have "slice_ok ?st1 (rSubResources (resHeap st ! b)) = slice_ok st (rSubResources (resHeap st ! b))"
        by (rule slice_ok_arrHeap) simp
      then have "slice_ok ?st1 (rSubResources (resHeap st ! b))" using b(2) by simp
      then have k2: "slice_ok st2 (rSubResources (resHeap st ! b))"
        using append_slice_keeps_ok[OF ok1 a(1)] by blast
      have e3: "slice_ok ?st3 t = slice_ok st2 t" for t
        by (rule slice_ok_arrHeap) (rule a3)
      show "b < length (resHeap ?st3) \<and> slice_ok ?st3 (rSubResources (resHeap ?st3 ! b))"
      proof (cases "b = parent")
        case True
        then show ?thesis using b(1) a(3) e3 r3 by simp
      next
        case False
        then show ?thesis using b(1) k2 e3 r3 by simp
      qed
    qed
    have i3: "same_identity st ?st3"
      using pok(1) unfolding same_identity_def r3 by (auto simp: nth_list_update)
    from Cons.IH[OF p3] obtain st' where ih:
      "attachSubResources_gv p grp version bygvr rs ?st3 = Some st'"
      "parents_ok st' bygvr" "same_identity ?st3 st'"
      by blast
    have "attachSubResources_gv p grp version bygvr (r # rs) st = Some st'"
      using ih(1) by (simp only: step)
    then show ?thesis using ih(2) same_identity_trans[OF i3 ih(3)] by blast
  qed
qed

lemma attachSubResources_loop_ok:
  assumes "parents_ok st bygvr"
  shows "\<exists>st'. attachSubResources_loop p bygvr gvs st = Some st'
      \<and> parents_ok st' bygvr \<and> same_identity st st'"
  using assms
proof (induction gvs arbitrary: st)
  case Nil
  then show ?case by (simp add: same_identity_refl)
next
  case (Cons gv gvs)
  obtain grp version where sp: "splitGroupVersion (GroupVersion gv) = (grp, version)"
    by (cases "splitGroupVersion (GroupVersion gv)")
  show ?case
  proof (cases "isGroupVersionMatch p grp version")
    case False
    then have "attachSubResources_loop p bygvr (gv # gvs) st = attachSubResources_loop p bygvr gvs st"
      using sp by simp
    then show ?thesis using Cons.IH[OF Cons.prems] by simp
  next
    case True
    from attachSubResources_gv_ok[OF Cons.prems, of p grp version "APIResources gv"]
    obtain st1 where g: "attachSubResources_gv p grp version bygvr (APIResources gv) st = Some st1"
      "parents_ok st1 bygvr" "same_identity st st1" by blast
    from Cons.IH[OF g(2)] obtain st' where ih:
      "attachSubResources_loop p bygvr gvs st1 = Some st'"
      "parents_ok st' bygvr" "same_identity st1 st'" by blast
    have "attachSubResources_loop p bygvr (gv # gvs) st = Some st'"
      using sp True g(1) ih(1) by simp
    then show ?thesis using ih(2) same_identity_trans[OF g(3) ih(3)] by blast
  qed
qed

lemma cat_sound_same_identity:
  assumes "cat_sound p st res" "same_identity st st'"
  shows "cat_sound p st' res"
  using assms unfolding cat_sound_def same_identity_def APIGroupVersionKind_def by simp

lemma Parser_Resources_total:
  assumes "discovery p = (gvs, None)"
  shows "\<exists>st1 st' cat bygvr. indexResources p gvs st = (st1, cat, bygvr)
      \<and> Parser_Resources p st = Some (st', Some cat, None)
      \<and> cat_sound p st' cat"
proof -
  obtain st1 cat bygvr where ix: "indexResources p gvs st = (st1, cat, bygvr)"
    by (cases "indexResources p gvs st")
  have inv: "cat_sound p st1 cat" "parents_ok st1 bygvr"
    using indexResources_inv[OF ix] by blast+
  from attachSubResources_loop_ok[OF inv(2), of p gvs] obtain st' where at:
    "attachSubResources_loop p bygvr gvs st1 = Some st'" "same_identity st1 st'"
    by blast
  have "Parser_Resources p st = Some (st', Some cat, None)"
    using assms ix at(1) by (simp add: Parser_Resources_def attachSubResources_def)
  moreover have "cat_sound p st' cat" using cat_sound_same_identity[OF inv(1) at(2)] .
  ultimately show ?thesis using ix by blast
qed

lemma example_parser_run:
  "Parser_Resources example_parser empty_store =
     Some (\<lparr>resHeap = [\<lparr>rResource = example_descriptor ''pods'' ''Pod'',
                         rApiGroupVersion = ([], ''v1''), rSchema = 1,
                         rSubResources = nil_slice\<rparr>],
            subHeap = [], arrHeap = []\<rparr>,
           Some (DAList.update ''pods'' [0] DAList.empty), None)"
  by (simp add: Parser_Resources_def example_parser_def indexResources_def
      attachSubResources_def splitGroupVersion_def isGroupVersionMatch_def
      defaultGroupVersion_def resource_def subResource_def getOpenAPI_def example_lookup_def
      example_descriptor_def new_res_def empty_store_def cat_append_def cat_lookup_def)

subsection \<open>Group and version\<close>

lemma Group_defaultGroupVersion:
  "Group (defaultGroupVersion r g v) =
     (if Version r = [] then v else if Group r = [] then g else Group r)"
  by (simp add: defaultGroupVersion_def Let_def)

lemma Version_defaultGroupVersion: "Version (defaultGroupVersion r g v) = Version r"
  by (simp add: defaultGroupVersion_def Let_def)

lemma Kind_defaultGroupVersion: "Kind (defaultGroupVersion r g v) = Kind r"
  by (simp add: defaultGroupVersion_def Let_def)

lemma Name_defaultGroupVersion: "Name (defaultGroupVersion r g v) = Name r"
  by (simp add: defaultGroupVersion_def Let_def)

text \<open>
  C1. Defaulting should fill an empty group with the announcement's group and an empty
  version with the announcement's version. On the descriptor \<^verbatim>\<open>deployments\<close> of the
  announcement \<^verbatim>\<open>apps/v1\<close>, whose group and version are both empty,
  \<^verbatim>\<open>defaultGroupVersion\<close> leaves the version empty and stores the version string
  \<^verbatim>\<open>v1\<close> in the group field.
\<close>

theorem defaultGroupVersion_empty_version:
  "defaultGroupVersion scenario_deployments ''apps'' ''v1'' = scenario_deployments\<lparr>Group := ''v1''\<rparr>
   \<and> Group (defaultGroupVersion scenario_deployments ''apps'' ''v1'') = ''v1''
   \<and> Version (defaultGroupVersion scenario_deployments ''apps'' ''v1'') = []"
  by (simp add: defaultGroupVersion_def scenario_deployments_def)

lemma strings_Split_no_sep: "sep \<notin> set s \<Longrightarrow> strings_Split s sep = [s]"
  by (induction s) auto

lemma strings_Split_sep:
  "sep \<notin> set a \<Longrightarrow> strings_Split (a @ sep # b) sep = a # strings_Split b sep"
  by (induction a) auto

lemma strings_Split_not_Nil: "strings_Split s sep \<noteq> []"
  by (induction s) (auto split: list.splits)

lemma splitGroupVersion_one_part:
  "CHR ''/'' \<notin> set s \<Longrightarrow> splitGroupVersion s = ([], s)"
  by (simp add: splitGroupVersion_def strings_Split_no_sep)

lemma splitGroupVersion_two_parts:
  "CHR ''/'' \<notin> set a \<Longrightarrow> CHR ''/'' \<notin> set b \<Longrightarrow> splitGroupVersion (a @ ''/'' @ b) = (a, b)"
  by (simp add: splitGroupVersion_def strings_Split_no_sep strings_Split_sep)

text \<open>
  C2. An empty \<^verbatim>\<open>groupVersion\<close> string should give the group \<^verbatim>\<open>""\<close> and the version
  \<^verbatim>\<open>"v1"\<close>. \<^verbatim>\<open>strings.Split\<close> of the empty string has one part, the empty string, so
  \<^verbatim>\<open>splitGroupVersion\<close> returns the empty version: its branch for \<^verbatim>\<open>"v1"\<close> is never
  taken.
\<close>

theorem splitGroupVersion_empty: "splitGroupVersion [] = ([], [])"
  by (simp add: splitGroupVersion_def)

subsection \<open>The scenario\<close>

text \<open>
  C3. In the scenario the catalog should hold, under \<^verbatim>\<open>deployments\<close>, one resource with
  the subresource \<^verbatim>\<open>deployments/status\<close> attached. \<^verbatim>\<open>Parser.Resources()\<close> returns
  the catalog with the one resource and a nil error, but the resource has no subresource
  and no \<^verbatim>\<open>SubResource\<close> was built: the first pass files the parent under its kind
  \<^verbatim>\<open>Deployment\<close>, the second pass looks for it under the name \<^verbatim>\<open>deployments\<close>.
\<close>

theorem Parser_Resources_scenario:
  "Parser_Resources scenario_parser empty_store =
     Some (\<lparr>resHeap = [\<lparr>rResource = scenario_deployments\<lparr>Group := ''v1''\<rparr>,
                         rApiGroupVersion = (''apps'', ''v1''), rSchema = 0,
                         rSubResources = nil_slice\<rparr>],
            subHeap = [], arrHeap = []\<rparr>,
           Some (DAList.update ''deployments'' [0] DAList.empty), None)"
  by (simp add: Parser_Resources_def scenario_parser_def indexResources_def
      attachSubResources_def splitGroupVersion_def isGroupVersionMatch_def
      defaultGroupVersion_def resource_def subResource_def getOpenAPI_def scenario_lookup_def
      scenario_deployments_def scenario_status_def new_res_def empty_store_def cat_append_def
      cat_lookup_def)

text \<open>
  Where the kind of the parent is its resource name, the second pass finds the parent
  and attaches the subresource, with the parent as its back-reference.
\<close>

lemma Parser_Resources_kind_is_name:
  "Parser_Resources kind_is_name_parser empty_store =
     Some (\<lparr>resHeap = [\<lparr>rResource = scenario_deployments\<lparr>Kind := ''deployments'', Group := ''v1''\<rparr>,
                         rApiGroupVersion = (''apps'', ''v1''), rSchema = 0,
                         rSubResources = \<lparr>s_ptr = Some 0, s_len = 1, s_cap = 1\<rparr>\<rparr>],
            subHeap = [\<lparr>srResource = scenario_status\<lparr>Kind := ''deployments'', Group := ''v1''\<rparr>,
                         srParent = 0, srApiGroupVersion = (''apps'', ''v1''),
                         srSchema = 0\<rparr>],
            arrHeap = [[0]]\<rparr>,
           Some (DAList.update ''deployments'' [0] DAList.empty), None)"
  by (simp add: Parser_Resources_def kind_is_name_parser_def indexResources_def
      attachSubResources_def splitGroupVersion_def isGroupVersionMatch_def
      defaultGroupVersion_def resource_def subResource_def getOpenAPI_def
      kind_is_name_lookup_def scenario_deployments_def scenario_status_def new_res_def
      new_sub_def get_res_def set_res_def append_slice_def slice_elems_def nil_slice_def
      growcap_def empty_store_def cat_append_def cat_lookup_def)

subsection \<open>The logical filters\<close>

lemma andFilter_Resource_all:
  "andFilter_Resource hf fs r = list_all (\<lambda>f. Filter_Resource hf f r) fs"
  by (induction fs) auto

lemma orFilter_Resource_ex:
  "orFilter_Resource hf fs r = list_ex (\<lambda>f. Filter_Resource hf f r) fs"
  by (induction fs) auto

lemma andFilter_SubResource_all:
  "andFilter_SubResource fs sr = list_all (\<lambda>f. Filter_SubResource f sr) fs"
  by (induction fs) auto

lemma orFilter_SubResource_ex:
  "orFilter_SubResource fs sr = list_ex (\<lambda>f. Filter_SubResource f sr) fs"
  by (induction fs) auto

text \<open>
  C5. The AND filter without children accepts every resource and every subresource, the
  OR filter without children rejects them; the AND filter accepts exactly when every
  child accepts, the OR filter exactly when some child accepts.
\<close>

theorem andFilter_orFilter_accept:
  "Filter_Resource hf (andFilter []) r \<and> Filter_SubResource (andFilter []) sr
   \<and> \<not> Filter_Resource hf (orFilter []) r \<and> \<not> Filter_SubResource (orFilter []) sr
   \<and> Filter_Resource hf (andFilter fs) r = list_all (\<lambda>f. Filter_Resource hf f r) fs
   \<and> Filter_SubResource (andFilter fs) sr = list_all (\<lambda>f. Filter_SubResource f sr) fs
   \<and> Filter_Resource hf (orFilter fs) r = list_ex (\<lambda>f. Filter_Resource hf f r) fs
   \<and> Filter_SubResource (orFilter fs) sr = list_ex (\<lambda>f. Filter_SubResource f sr) fs"
  by (simp add: andFilter_Resource_all orFilter_Resource_ex andFilter_SubResource_all
      orFilter_SubResource_ex)

subsection \<open>Sorted keys\<close>

text \<open>
  C7. \<^verbatim>\<open>SortKeys\<close> returns the keys of the catalog, each once, in the lexicographic
  order of byte strings; it reads the catalog and returns the list only. Over the keys
  \<^verbatim>\<open>pods\<close>, \<^verbatim>\<open>nodes\<close>, \<^verbatim>\<open>services\<close> it returns \<^verbatim>\<open>nodes\<close>, \<^verbatim>\<open>pods\<close>,
  \<^verbatim>\<open>services\<close>.
\<close>

theorem SortKeys_sorted_keys:
  "sorted (Resources_SortKeys r) \<and> distinct (Resources_SortKeys r)
   \<and> set (Resources_SortKeys r) = dom (DAList.lookup r)
   \<and> Resources_SortKeys (DAList.update ''pods'' a (DAList.update ''nodes'' b
        (DAList.update ''services'' c DAList.empty))) = [''nodes'', ''pods'', ''services'']"
  by (simp add: Resources_SortKeys_def lookup.rep_eq dom_map_of_conv_image_fst update.rep_eq
      empty.rep_eq)

subsection \<open>Filtering a catalog\<close>

text \<open>
  C10. For every catalog of resources and every filter, no key of the catalog that
  \<^verbatim>\<open>Filter\<close> returns maps to an empty list: a key whose resources the resource
  predicate all rejects is no key of the result.
\<close>

theorem Filter_keys_not_empty:
  assumes wf: "wf_catalog st cat"
  shows "\<exists>st' cat'. Resources_Filter hf f cat st = Some (st', cat')
      \<and> (\<forall>k. DAList.lookup cat' k \<noteq> Some [])
      \<and> (\<forall>k. list_all (\<lambda>a. \<not> accepts hf f st a) (cat_lookup cat k)
               \<longrightarrow> DAList.lookup cat' k = None)"
proof -
  from Resources_Filter_accepts[OF wf, of hf f] obtain st' cat' where r:
    "Resources_Filter hf f cat st = Some (st', cat')"
    "\<forall>k. list_all2 (is_copy f st st') (filter (accepts hf f st) (cat_lookup cat k))
                (cat_lookup cat' k)"
    "\<forall>k. DAList.lookup cat' k \<noteq> Some []"
    by blast
  have "DAList.lookup cat' k = None"
    if rej: "list_all (\<lambda>a. \<not> accepts hf f st a) (cat_lookup cat k)" for k
  proof -
    have "filter (accepts hf f st) (cat_lookup cat k) = []"
      using rej by (simp add: list_all_iff filter_empty_conv)
    then have "cat_lookup cat' k = []" using r(2) by (metis list_all2_Nil)
    then show ?thesis using r(3) by (cases "DAList.lookup cat' k") (auto simp: cat_lookup_def)
  qed
  then show ?thesis using r(1,3) by blast
qed

theorem Filter_keys_not_empty_witness:
  "wf_catalog example_store example_catalog
   \<and> (\<exists>st' cat'. Resources_Filter no_field (orFilter []) example_catalog example_store
                      = Some (st', cat')
        \<and> (\<forall>k. DAList.lookup cat' k \<noteq> Some [])
        \<and> (\<forall>k. list_all (\<lambda>a. \<not> accepts no_field (orFilter []) example_store a)
                   (cat_lookup example_catalog k)
                 \<longrightarrow> DAList.lookup cat' k = None))"
  using Filter_keys_not_empty[OF wf_example, of no_field "orFilter []"] wf_example by simp

text \<open>
  C6. For every catalog of resources, \<^verbatim>\<open>Filter\<close> with the skip-status-subresource
  filter keeps every resource, in its place under its key, also when no subresource
  remains; the subresource list of each copy is the list of the original without the
  subresources whose descriptor name ends in \<^verbatim>\<open>/status\<close>, the others in their order.
\<close>

theorem Filter_skipSubresourceFilter_status:
  assumes wf: "wf_catalog st cat"
  shows "\<exists>st' cat'. Resources_Filter hf skipSubresourceFilter cat st = Some (st', cat')
      \<and> (\<forall>k. list_all2
                (\<lambda>a c. filtered_copy
                          (\<lambda>sr. \<not> strings_HasSuffix (Name (srResource sr)) ''/status'')
                          st a st' c)
                (cat_lookup cat k) (cat_lookup cat' k))"
proof -
  from Resources_Filter_accepts[OF wf, of hf skipSubresourceFilter] obtain st' cat' where r:
    "Resources_Filter hf skipSubresourceFilter cat st = Some (st', cat')"
    "\<forall>k. list_all2 (is_copy skipSubresourceFilter st st')
           (filter (accepts hf skipSubresourceFilter st) (cat_lookup cat k)) (cat_lookup cat' k)"
    by blast
  have "list_all2
          (\<lambda>a c. filtered_copy
                    (\<lambda>sr. \<not> strings_HasSuffix (Name (srResource sr)) ''/status'') st a st' c)
          (cat_lookup cat k) (cat_lookup cat' k)" for k
  proof -
    have "filter (accepts hf skipSubresourceFilter st) (cat_lookup cat k) = cat_lookup cat k"
      using wf_catalog_lookup[OF wf] by (intro filter_accepts_all) auto
    then have "list_all2 (is_copy skipSubresourceFilter st st') (cat_lookup cat k) (cat_lookup cat' k)"
      using r(2) by metis
    then show ?thesis
      by (rule list_all2_mono) (simp add: is_copy_def Filter_SubResource_skip)
  qed
  then show ?thesis using r(1) by blast
qed

theorem Filter_skipSubresourceFilter_status_witness:
  "wf_catalog example_store example_catalog
   \<and> (\<exists>st' cat'. Resources_Filter no_field skipSubresourceFilter example_catalog example_store
                     = Some (st', cat')
        \<and> (\<forall>k. list_all2
                  (\<lambda>a c. filtered_copy
                            (\<lambda>sr. \<not> strings_HasSuffix (Name (srResource sr)) ''/status'')
                            example_store a st' c)
                  (cat_lookup example_catalog k) (cat_lookup cat' k)))"
  using Filter_skipSubresourceFilter_status[OF wf_example, of no_field] wf_example by simp

text \<open>
  C4. \<^verbatim>\<open>Filter\<close> with the accept-all filter should return, for every catalog, a
  catalog of the same content. A key of the source that maps to an empty list is no key
  of the result: \<^verbatim>\<open>Filter\<close> makes a key when it appends the first resource to it.
\<close>

theorem Filter_emptyFilter_empty_key:
  "Resources_Filter no_field emptyFilter (DAList.update ''x'' [] DAList.empty) empty_store
     = Some (empty_store, DAList.empty)
   \<and> cat_view (empty_store :: nat store) DAList.empty
       \<noteq> cat_view empty_store (DAList.update ''x'' [] DAList.empty)"
proof -
  have "cat_view (empty_store :: nat store) DAList.empty ''x''
       \<noteq> cat_view empty_store (DAList.update ''x'' [] DAList.empty) ''x''"
    by (simp add: cat_view_def)
  then have "cat_view (empty_store :: nat store) DAList.empty
       \<noteq> cat_view empty_store (DAList.update ''x'' [] DAList.empty)"
    by metis
  then show ?thesis
    by (simp add: Resources_Filter_def update.rep_eq empty.rep_eq)
qed

text \<open>
  C4, amended. For every catalog of resources whose keys all map to at least one
  resource, \<^verbatim>\<open>Filter\<close> with the accept-all filter returns a catalog of the same
  content, and leaves the content of the source as it was. Every resource of the result
  is a new object whose subresource slice has a new backing array: appending to the
  subresource list of a resource of the result, or overwriting one of its entries,
  leaves the content of the source as it was.
\<close>

theorem Filter_emptyFilter_copy:
  assumes wf: "wf_catalog st cat" and ne: "\<forall>k. DAList.lookup cat k \<noteq> Some []"
  shows "\<exists>st' cat'. Resources_Filter hf emptyFilter cat st = Some (st', cat')
      \<and> cat_view st' cat' = cat_view st cat
      \<and> cat_view st' cat = cat_view st cat
      \<and> (\<forall>k. list_all (fresh_copy st st') (cat_lookup cat' k))
      \<and> (\<forall>k. \<forall>c\<in>set (cat_lookup cat' k). \<forall>v. \<exists>st''.
            SubResources_append st' c v = Some st'' \<and> cat_view st'' cat = cat_view st cat)
      \<and> (\<forall>k. \<forall>c\<in>set (cat_lookup cat' k). \<forall>i v. i < SubResources_len st' c \<longrightarrow>
            (\<exists>st''. SubResources_set st' c i v = Some st'' \<and> cat_view st'' cat = cat_view st cat))"
proof -
  from Resources_Filter_accepts[OF wf, of hf emptyFilter] obtain st' cat' where r:
    "Resources_Filter hf emptyFilter cat st = Some (st', cat')" "extends st st'"
    "\<forall>k. list_all2 (is_copy emptyFilter st st')
           (filter (accepts hf emptyFilter st) (cat_lookup cat k)) (cat_lookup cat' k)"
    "\<forall>k. DAList.lookup cat' k \<noteq> Some []"
    by blast
  have cp: "list_all2 (is_copy emptyFilter st st') (cat_lookup cat k) (cat_lookup cat' k)" for k
  proof -
    have "filter (accepts hf emptyFilter st) (cat_lookup cat k) = cat_lookup cat k"
      using wf_catalog_lookup[OF wf] by (intro filter_accepts_all) auto
    then show ?thesis using r(3) by metis
  qed
  have same: "cat_view st' cat' k = cat_view st cat k" for k
  proof -
    have "list_all2 (\<lambda>a c. res_view st a = res_view st' c) (cat_lookup cat k) (cat_lookup cat' k)"
      using cp[of k]
    proof (rule list.rel_mono_strong)
      fix a c assume "a \<in> set (cat_lookup cat k)" "is_copy emptyFilter st st' a c"
      then show "res_view st a = res_view st' c"
        using wf_catalog_lookup[OF wf, of k] is_copy_emptyFilter_view r(2) by blast
    qed
    then have m: "map (res_view st) (cat_lookup cat k) = map (res_view st') (cat_lookup cat' k)"
      by (rule list_all2_map_eq)
    have len: "length (cat_lookup cat k) = length (cat_lookup cat' k)"
      using cp[of k] by (rule list_all2_lengthD)
    show ?thesis
    proof (cases "DAList.lookup cat k")
      case None
      then have "cat_lookup cat' k = []" using len by (simp add: cat_lookup_def)
      then have "DAList.lookup cat' k = None"
        using r(4) by (cases "DAList.lookup cat' k") (auto simp: cat_lookup_def)
      then show ?thesis using None by (simp add: cat_view_def)
    next
      case (Some v)
      then have "v \<noteq> []" using ne by auto
      then have "cat_lookup cat' k \<noteq> []" using len Some by (auto simp: cat_lookup_def)
      then obtain v' where v': "DAList.lookup cat' k = Some v'"
        by (cases "DAList.lookup cat' k") (auto simp: cat_lookup_def)
      show ?thesis using m Some v' by (simp add: cat_view_def cat_lookup_def)
    qed
  qed
  then have A: "cat_view st' cat' = cat_view st cat" by (rule HOL.ext)
  have B: "cat_view st' cat = cat_view st cat" using cat_view_ext[OF r(2) wf] .
  have fr: "list_all (fresh_copy st st') (cat_lookup cat' k)" for k
  proof -
    have "list_all2 (\<lambda>a c. fresh_copy st st' c) (cat_lookup cat k) (cat_lookup cat' k)"
      using cp[of k] by (rule list_all2_mono) (simp add: is_copy_def)
    then show ?thesis by (rule list_all2_right)
  qed
  have D: "\<exists>st''. SubResources_append st' c v = Some st'' \<and> cat_view st'' cat = cat_view st cat"
    if "c \<in> set (cat_lookup cat' k)" for k c v
  proof -
    have "fresh_copy st st' c" using fr[of k] that by (simp add: list_all_iff)
    from SubResources_append_extends[OF r(2) this, of v] obtain st'' where
      "SubResources_append st' c v = Some st''" "extends st st''" by blast
    then show ?thesis using cat_view_ext[OF _ wf] by blast
  qed
  have E: "\<exists>st''. SubResources_set st' c i v = Some st'' \<and> cat_view st'' cat = cat_view st cat"
    if "c \<in> set (cat_lookup cat' k)" "i < SubResources_len st' c" for k c i v
  proof -
    have f: "fresh_copy st st' c" using fr[of k] that(1) by (simp add: list_all_iff)
    from SubResources_set_total[OF f that(2), of v] obtain st'' where
      s: "SubResources_set st' c i v = Some st''" by blast
    have "extends st st''" using SubResources_set_extends[OF r(2) f s] .
    then show ?thesis using s cat_view_ext[OF _ wf] by blast
  qed
  show ?thesis
    apply (rule exI[of _ st'], rule exI[of _ cat'])
    apply (intro conjI allI ballI impI)
    subgoal by (rule r(1))
    subgoal by (rule A)
    subgoal by (rule B)
    subgoal by (rule fr)
    subgoal by (rule D)
    subgoal by (rule E)
    done
qed

lemma example_catalog_no_empty_key: "\<forall>k. DAList.lookup example_catalog k \<noteq> Some []"
  by (simp add: example_catalog_def lookup_update)

theorem Filter_emptyFilter_copy_witness:
  "wf_catalog example_store example_catalog
   \<and> (\<forall>k. DAList.lookup example_catalog k \<noteq> Some [])
   \<and> (\<exists>st' cat'. Resources_Filter no_field emptyFilter example_catalog example_store
                     = Some (st', cat')
        \<and> cat_view st' cat' = cat_view example_store example_catalog
        \<and> cat_view st' example_catalog = cat_view example_store example_catalog
        \<and> (\<forall>k. list_all (fresh_copy example_store st') (cat_lookup cat' k))
        \<and> (\<forall>k. \<forall>c\<in>set (cat_lookup cat' k). \<forall>v. \<exists>st''.
              SubResources_append st' c v = Some st''
              \<and> cat_view st'' example_catalog = cat_view example_store example_catalog)
        \<and> (\<forall>k. \<forall>c\<in>set (cat_lookup cat' k). \<forall>i v. i < SubResources_len st' c \<longrightarrow>
              (\<exists>st''. SubResources_set st' c i v = Some st''
                 \<and> cat_view st'' example_catalog = cat_view example_store example_catalog)))"
  using Filter_emptyFilter_copy[OF wf_example example_catalog_no_empty_key, of no_field]
    wf_example example_catalog_no_empty_key
  by simp

subsection \<open>The parser\<close>

text \<open>
  C8. \<^verbatim>\<open>Parser.Resources()\<close> returns an error exactly when \<^verbatim>\<open>ServerResources()\<close>
  returns one: it then returns that error and the nil catalog, and allocates nothing.
  When \<^verbatim>\<open>ServerResources()\<close> succeeds, \<^verbatim>\<open>Parser.Resources()\<close> returns a catalog and
  the nil error, whatever the announcements, the schema lookup and the configured group
  and version are.
\<close>

theorem Parser_Resources_error:
  "(case snd (discovery p) of
      Some err \<Rightarrow> Parser_Resources p st = Some (st, None, Some err)
    | None \<Rightarrow> (\<exists>st' cat. Parser_Resources p st = Some (st', Some cat, None)))"
proof (cases "discovery p")
  case (Pair gvs e)
  show ?thesis
  proof (cases e)
    case None
    then show ?thesis using Parser_Resources_total[of p gvs st] Pair by auto
  next
    case (Some err)
    then show ?thesis using Pair by (simp add: Parser_Resources_def)
  qed
qed

text \<open>
  C9. Every resource of the catalog that \<^verbatim>\<open>Parser.Resources()\<close> returns has the schema
  that the schema lookup gives for its group, version and kind; no resource of the
  catalog has a group, version and kind for which the schema lookup finds nothing.
\<close>

theorem Parser_Resources_schema_resolved:
  assumes "Parser_Resources p st = Some (st', Some cat, err)"
  shows "(\<forall>k. \<forall>a\<in>set (cat_lookup cat k). \<exists>R. get_res st' a = Some R
            \<and> resources p (APIGroupVersionKind R) = Some (rSchema R))
      \<and> (\<forall>gvk. resources p gvk = None \<longrightarrow>
            (\<forall>k. \<forall>a\<in>set (cat_lookup cat k). \<forall>R.
               get_res st' a = Some R \<longrightarrow> APIGroupVersionKind R \<noteq> gvk))"
proof -
  obtain gvs e where d: "discovery p = (gvs, e)" by (cases "discovery p")
  have e: "e = None" using assms d by (cases e) (auto simp: Parser_Resources_def)
  from Parser_Resources_total[of p gvs st] d e assms have snd: "cat_sound p st' cat" by auto
  have 1: "\<exists>R. get_res st' a = Some R \<and> resources p (APIGroupVersionKind R) = Some (rSchema R)"
    if "a \<in> set (cat_lookup cat k)" for k a
    using snd that unfolding cat_sound_def get_res_def by auto
  have 2: "APIGroupVersionKind R \<noteq> gvk"
    if "resources p gvk = None" "a \<in> set (cat_lookup cat k)" "get_res st' a = Some R" for gvk k a R
    using 1[OF that(2)] that(1,3) by auto
  show ?thesis using 1 2 by blast
qed

theorem Parser_Resources_schema_resolved_witness:
  "Parser_Resources example_parser empty_store =
     Some (\<lparr>resHeap = [\<lparr>rResource = example_descriptor ''pods'' ''Pod'',
                         rApiGroupVersion = ([], ''v1''), rSchema = 1,
                         rSubResources = nil_slice\<rparr>],
            subHeap = [], arrHeap = []\<rparr>,
           Some (DAList.update ''pods'' [0] DAList.empty), None)
   \<and> 0 \<in> set (cat_lookup (DAList.update ''pods'' [0] DAList.empty) ''pods'')
   \<and> (\<exists>R. get_res \<lparr>resHeap = [\<lparr>rResource = example_descriptor ''pods'' ''Pod'',
                                  rApiGroupVersion = ([], ''v1''), rSchema = 1,
                                  rSubResources = nil_slice\<rparr>],
                     subHeap = [], arrHeap = []\<rparr> 0 = Some R
          \<and> resources example_parser (APIGroupVersionKind R) = Some (rSchema R))
   \<and> resources example_parser ([], ''v1'', ''Node'') = None"
proof -
  note t = Parser_Resources_schema_resolved[OF example_parser_run]
  have m: "0 \<in> set (cat_lookup (DAList.update ''pods'' [0] DAList.empty) ''pods'')"
    by (simp add: cat_lookup_def)
  have n: "resources example_parser ([], ''v1'', ''Node'') = None"
    by (simp add: example_parser_def example_lookup_def)
  from t m have "\<exists>R. get_res \<lparr>resHeap = [\<lparr>rResource = example_descriptor ''pods'' ''Pod'',
                                  rApiGroupVersion = ([], ''v1''), rSchema = 1,
                                  rSubResources = nil_slice\<rparr>],
                     subHeap = [], arrHeap = []\<rparr> 0 = Some R
          \<and> resources example_parser (APIGroupVersionKind R) = Some (rSchema R)"
    by blast
  then show ?thesis using example_parser_run m n by blast
qed

end
